(* ===== verification/Prelude.thy ===== *)
theory Prelude
  imports Main "HOL-Library.Word"
begin

text \<open>
  Shared vocabulary of the development: the machine integers of the router, Rust's checked and
  saturating arithmetic, results with an error side, and the generic notion of a reachable state
  of a step relation together with the locale that turns a step-wise proof into an invariant of
  every reachable state.
\<close>

named_theorems word_bounds \<open>facts that read machine words as natural numbers\<close>
named_theorems result_simps \<open>the equations of the error-carrying results\<close>


section \<open>Machine integers\<close>

type_synonym u8 = "8 word"
type_synonym u16 = "16 word"
type_synonym u32 = "32 word"
type_synonym u64 = "64 word"

text \<open>\<open>u64::MAX\<close>.\<close>

definition u64_max :: u64 where
  "u64_max = - 1"

definition saturating_add :: "'a::len word \<Rightarrow> 'a word \<Rightarrow> 'a word" where
  "saturating_add a b = (if unat a + unat b < 2 ^ LENGTH('a) then a + b else - 1)"

definition saturating_mul :: "'a::len word \<Rightarrow> 'a word \<Rightarrow> 'a word" where
  "saturating_mul a b = (if unat a * unat b < 2 ^ LENGTH('a) then a * b else - 1)"

definition checked_sub :: "'a::len word \<Rightarrow> 'a word \<Rightarrow> 'a word option" where
  "checked_sub a b = (if b \<le> a then Some (a - b) else None)"

lemma unat_minus_one_max [word_bounds]: "unat (- 1 :: 'a::len word) = 2 ^ LENGTH('a) - 1"
  by (simp add: unsigned_minus_1_eq_mask mask_eq_exp_minus_1)

lemma unat_u64_max [word_bounds, simp]: "unat u64_max = 2 ^ 64 - 1"
  by (simp add: u64_max_def unat_minus_one_max)

lemma u64_max_greatest [simp]: "w \<le> u64_max"
  by (simp add: u64_max_def)

lemma u64_max_le_iff [simp]: "u64_max \<le> w \<longleftrightarrow> w = u64_max"
  by (meson order.antisym u64_max_greatest order.refl)

lemma unat_saturating_add [word_bounds]:
  "unat (saturating_add a b) = min (unat a + unat b) (2 ^ LENGTH('a) - 1)"
  for a b :: "'a::len word"
  by (auto simp: saturating_add_def unat_minus_one_max unat_word_ariths)

lemma unat_saturating_mul [word_bounds]:
  "unat (saturating_mul a b) = min (unat a * unat b) (2 ^ LENGTH('a) - 1)"
  for a b :: "'a::len word"
  by (auto simp: saturating_mul_def unat_minus_one_max unat_word_ariths)

lemma checked_sub_Some_iff:
  "checked_sub a b = Some c \<longleftrightarrow> b \<le> a \<and> c = a - b"
  by (auto simp: checked_sub_def)

lemma unat_checked_sub [word_bounds]:
  "checked_sub a b = Some c \<Longrightarrow> unat c = unat a - unat b"
  by (auto simp: checked_sub_Some_iff unat_sub)

lemma unat_u64_of_nat [word_bounds]: "n < 2 ^ 64 \<Longrightarrow> unat (word_of_nat n :: u64) = n"
  by (simp add: unat_of_nat)

lemma u64_of_nat_inj:
  "\<lbrakk>(word_of_nat m :: u64) = word_of_nat n; m < 2 ^ 64; n < 2 ^ 64\<rbrakk> \<Longrightarrow> m = n"
  by (metis unat_u64_of_nat)


section \<open>Results\<close>

text \<open>\<open>Result<T, E>\<close> is the sum \<open>'e + 'a\<close>, \<open>Inl\<close> the error.  \<open>ok_or\<close> and the bind behind the
  \<open>?\<close> operator are the two combinators the handlers use.\<close>

type_synonym ('e, 'a) result = "'e + 'a"

definition ok_or :: "'a option \<Rightarrow> 'e \<Rightarrow> ('e, 'a) result" where
  "ok_or x e = (case x of Some v \<Rightarrow> Inr v | None \<Rightarrow> Inl e)"

definition map_err :: "('e \<Rightarrow> 'f) \<Rightarrow> ('e, 'a) result \<Rightarrow> ('f, 'a) result" where
  "map_err f r = (case r of Inl e \<Rightarrow> Inl (f e) | Inr v \<Rightarrow> Inr v)"

lemma ok_or_simps [simp, result_simps]:
  "ok_or (Some v) e = Inr v"
  "ok_or None e = Inl e"
  by (simp_all add: ok_or_def)

lemma ok_or_eq_iff [result_simps]:
  "ok_or x e = Inr v \<longleftrightarrow> x = Some v"
  "ok_or x e = Inl f \<longleftrightarrow> x = None \<and> f = e"
  by (auto simp: ok_or_def split: option.splits)

lemma map_err_simps [simp, result_simps]:
  "map_err f (Inl e) = Inl (f e)"
  "map_err f (Inr v) = Inr v"
  by (simp_all add: map_err_def)

lemma map_err_eq_Inr [simp, result_simps]: "map_err f r = Inr v \<longleftrightarrow> r = Inr v"
  by (cases r) simp_all


section \<open>Reachable states and invariants\<close>

inductive reachable :: "('s \<Rightarrow> bool) \<Rightarrow> ('s \<Rightarrow> 's \<Rightarrow> bool) \<Rightarrow> 's \<Rightarrow> bool"
  for init :: "'s \<Rightarrow> bool" and step :: "'s \<Rightarrow> 's \<Rightarrow> bool" where
  reachable_init: "init s \<Longrightarrow> reachable init step s"
| reachable_step: "reachable init step s \<Longrightarrow> step s t \<Longrightarrow> reachable init step t"

text \<open>An invariant of a step relation: it holds initially and every step keeps it.\<close>

locale step_invariant =
  fixes init :: "'s \<Rightarrow> bool"
    and step :: "'s \<Rightarrow> 's \<Rightarrow> bool"
    and inv :: "'s \<Rightarrow> bool"
  assumes inv_init: "init s \<Longrightarrow> inv s"
    and inv_step: "inv s \<Longrightarrow> step s t \<Longrightarrow> inv t"
begin

lemma inv_reachable: "reachable init step s \<Longrightarrow> inv s"
  by (induction rule: reachable.induct) (blast intro: inv_init inv_step)+

lemma inv_steps: "step\<^sup>*\<^sup>* s t \<Longrightarrow> inv s \<Longrightarrow> inv t"
  by (induction rule: rtranclp_induct) (blast intro: inv_step)+

end

lemma reachable_steps:
  "step\<^sup>*\<^sup>* s t \<Longrightarrow> reachable init step s \<Longrightarrow> reachable init step t"
  by (induction rule: rtranclp_induct) (auto intro: reachable_step)


section \<open>Lists\<close>

lemma fold_invariant:
  assumes "P s" and "\<And>x s. x \<in> set xs \<Longrightarrow> P s \<Longrightarrow> P (f x s)"
  shows "P (fold f xs s)"
  using assms by (induction xs arbitrary: s) auto

end
