(* ===== verification/Types.thy ===== *)
theory Types
  imports Prelude
begin

text \<open>
  The data types of \<open>src/types.rs\<close>: public keys and signatures as byte arrays, the process-wide
  generator of request and subscriber ids, the parser of the on-chain delegation record, the
  base58 visitor of \<open>SerdePubkey\<close>, and the response structures.  The lemmas read the delegation
  record's byte layout back and show that generated ids do not repeat.
\<close>

section \<open>Keys and identifiers\<close>

text \<open>\<open>Pubkey\<close> and \<open>Signature\<close> are newtypes over fixed-size byte arrays.\<close>

datatype pubkey = Pubkey (pubkey_bytes: "u8 list")
datatype signature = Signature (signature_bytes: "u8 list")

definition pubkey_default :: pubkey where
  "pubkey_default = Pubkey (replicate 32 0)"

text \<open>\<open>Pubkey::try_from(&[u8])\<close>: succeeds exactly on 32 bytes.\<close>

definition pubkey_try_from :: "u8 list \<Rightarrow> pubkey option" where
  "pubkey_try_from bs = (if length bs = 32 then Some (Pubkey bs) else None)"

datatype serde_pubkey = SerdePubkey (serde_pubkey_inner: pubkey)

type_synonym subscription_id = u64

datatype subscriber_id = SubscriberId u64
datatype request_id = RequestId u64

text \<open>
  The counter is a \<open>static\<close> of a default trait method, so there is one of them for all implementors
  of \<open>UniqueId\<close>: request ids and subscriber ids are drawn from the same sequence.
\<close>

definition counter_init :: u64 where
  "counter_init = 1"

definition generate :: "(u64 \<Rightarrow> 'a) \<Rightarrow> u64 \<Rightarrow> 'a \<times> u64" where
  "generate from_u64 counter = (from_u64 counter, counter + 1)"

fun generate_n :: "(u64 \<Rightarrow> 'a) list \<Rightarrow> u64 \<Rightarrow> 'a list \<times> u64" where
  "generate_n [] counter = ([], counter)"
| "generate_n (f # fs) counter =
     (let (i, counter') = generate f counter; (rest, counter'') = generate_n fs counter'
      in (i # rest, counter''))"


section \<open>Base58 public keys\<close>

text \<open>
  \<open>encode_onto\<close> and \<open>decode_onto\<close> stand for \<open>bs58::encode(..).onto\<close> and \<open>bs58::decode(..).onto\<close>
  with the capacity of the target buffer as first argument.  A failed encoding panics
  (\<open>expect\<close>), which is the value \<open>None\<close>.
\<close>

datatype 'e serde_error = Custom 'e | Expected32Bytes

definition serde_pubkey_serialize ::
  "(nat \<Rightarrow> u8 list \<Rightarrow> 'e + string) \<Rightarrow> serde_pubkey \<Rightarrow> string option" where
  "serde_pubkey_serialize encode_onto k =
     (case encode_onto 44 (pubkey_bytes (serde_pubkey_inner k)) of
        Inr s \<Rightarrow> Some s
      | Inl _ \<Rightarrow> None)"

definition serde_pubkey_visit_str ::
  "(nat \<Rightarrow> string \<Rightarrow> 'e + u8 list) \<Rightarrow> string \<Rightarrow> ('e serde_error, serde_pubkey) result" where
  "serde_pubkey_visit_str decode_onto value =
     (case decode_onto 32 value of
        Inl e \<Rightarrow> Inl (Custom e)
      | Inr decoded \<Rightarrow>
          if length decoded \<noteq> 32 then Inl Expected32Bytes
          else Inr (SerdePubkey (Pubkey decoded)))"


section \<open>Response structures\<close>

record rpc_identity =
  rpc_identity_identity :: serde_pubkey
  rpc_identity_fqdn :: string

record parsed_delegation_record =
  authority :: serde_pubkey
  owner :: serde_pubkey
  delegation_slot :: u64
  lamports :: u64

record delegation_status =
  is_delegated :: bool
  fqdn :: "string option"
  delegation_record :: "parsed_delegation_record option"

record route_info =
  route_identity :: serde_pubkey
  route_fqdn :: string
  route_base_fee :: u16
  route_block_time_ms :: u16
  route_country_code :: string

text \<open>
  \<open>ErRecord\<close> belongs to the magic domain program; the router reads it through its accessors, whose
  values are the fields here; of the status only whether it is \<open>ErStatus::Active\<close> is ever asked.
\<close>

record er_record =
  er_identity :: pubkey
  er_addr :: string
  er_base_fee :: u16
  er_block_time_ms :: u16
  er_country_code :: string
  er_status_active :: bool

definition route_info_from :: "er_record \<Rightarrow> route_info" where
  "route_info_from r =
     \<lparr>route_identity = SerdePubkey (er_identity r),
      route_fqdn = er_addr r,
      route_base_fee = er_base_fee r,
      route_block_time_ms = er_block_time_ms r,
      route_country_code = er_country_code r\<rparr>"


section \<open>The delegation record\<close>

definition AUTHORITY_OFFSET :: nat where "AUTHORITY_OFFSET = 8"
definition AUTHORITY_SIZE :: nat where "AUTHORITY_SIZE = 32"
definition OWNER_OFFSET :: nat where "OWNER_OFFSET = AUTHORITY_OFFSET + AUTHORITY_SIZE"
definition OWNER_SIZE :: nat where "OWNER_SIZE = 32"
definition SLOT_OFFSET :: nat where "SLOT_OFFSET = OWNER_OFFSET + OWNER_SIZE"
definition SLOT_SIZE :: nat where "SLOT_SIZE = 8"
definition LAMPORTS_OFFSET :: nat where "LAMPORTS_OFFSET = SLOT_OFFSET + SLOT_SIZE"
definition LAMPORTS_SIZE :: nat where "LAMPORTS_SIZE = 8"
definition MIN_DATA_LEN :: nat where "MIN_DATA_LEN = LAMPORTS_OFFSET + LAMPORTS_SIZE"

lemmas layout_defs =
  AUTHORITY_OFFSET_def AUTHORITY_SIZE_def OWNER_OFFSET_def OWNER_SIZE_def SLOT_OFFSET_def
  SLOT_SIZE_def LAMPORTS_OFFSET_def LAMPORTS_SIZE_def MIN_DATA_LEN_def

text \<open>The half-open slice \<open>&data[a..b]\<close> and \<open>u64::from_le_bytes\<close>.\<close>

definition slice :: "nat \<Rightarrow> nat \<Rightarrow> 'a list \<Rightarrow> 'a list" where
  "slice a b xs = take (b - a) (drop a xs)"

fun le_nat :: "u8 list \<Rightarrow> nat" where
  "le_nat [] = 0"
| "le_nat (b # bs) = unat b + 256 * le_nat bs"

definition u64_from_le_bytes :: "u8 list \<Rightarrow> u64 option" where
  "u64_from_le_bytes bs = (if length bs = 8 then Some (word_of_nat (le_nat bs)) else None)"

definition from_bytes :: "u8 list \<Rightarrow> parsed_delegation_record option" where
  "from_bytes data =
     (if length data < MIN_DATA_LEN then None
      else case pubkey_try_from (slice AUTHORITY_OFFSET OWNER_OFFSET data) of
        None \<Rightarrow> None
      | Some auth \<Rightarrow>
          (case pubkey_try_from (slice OWNER_OFFSET SLOT_OFFSET data) of
             None \<Rightarrow> None
           | Some own \<Rightarrow>
               (case u64_from_le_bytes (slice SLOT_OFFSET LAMPORTS_OFFSET data) of
                  None \<Rightarrow> None
                | Some sl \<Rightarrow>
                    (case u64_from_le_bytes (slice LAMPORTS_OFFSET (LAMPORTS_OFFSET + 8) data) of
                       None \<Rightarrow> None
                     | Some lam \<Rightarrow>
                         Some \<lparr>authority = SerdePubkey auth, owner = SerdePubkey own,
                               delegation_slot = sl, lamports = lam\<rparr>))))"

text \<open>The little-endian encoding the delegation program writes, used to state the layout.\<close>

fun nat_to_le :: "nat \<Rightarrow> nat \<Rightarrow> u8 list" where
  "nat_to_le 0 n = []"
| "nat_to_le (Suc k) n = word_of_nat (n mod 256) # nat_to_le k (n div 256)"

definition u64_to_le_bytes :: "u64 \<Rightarrow> u8 list" where
  "u64_to_le_bytes w = nat_to_le 8 (unat w)"

definition record_layout :: "u8 list \<Rightarrow> parsed_delegation_record \<Rightarrow> u8 list \<Rightarrow> u8 list" where
  "record_layout discriminator r trailing =
     discriminator
     @ pubkey_bytes (serde_pubkey_inner (authority r))
     @ pubkey_bytes (serde_pubkey_inner (owner r))
     @ u64_to_le_bytes (delegation_slot r)
     @ u64_to_le_bytes (lamports r)
     @ trailing"

definition wf_record :: "parsed_delegation_record \<Rightarrow> bool" where
  "wf_record r \<longleftrightarrow>
     length (pubkey_bytes (serde_pubkey_inner (authority r))) = 32 \<and>
     length (pubkey_bytes (serde_pubkey_inner (owner r))) = 32"


section \<open>Byte-level facts\<close>

lemma length_nat_to_le [simp]: "length (nat_to_le k n) = k"
  by (induction k arbitrary: n) simp_all

lemma le_nat_nat_to_le: "le_nat (nat_to_le k n) = n mod 256 ^ k"
proof (induction k arbitrary: n)
  case (Suc k)
  have "unat (word_of_nat (n mod 256) :: u8) = n mod 256"
    by (simp add: unat_of_nat)
  with Suc show ?case
    by (simp add: mod_mult2_eq)
qed simp

lemma u64_to_le_bytes_length [simp]: "length (u64_to_le_bytes w) = 8"
  by (simp add: u64_to_le_bytes_def)

lemma u64_le_roundtrip [simp]: "u64_from_le_bytes (u64_to_le_bytes w) = Some w"
proof -
  have "unat w < 256 ^ 8"
    using unsigned_less [of w] by simp
  then have "unat w mod 256 ^ 8 = unat w"
    by (rule mod_less)
  then show ?thesis
    by (simp add: u64_from_le_bytes_def u64_to_le_bytes_def le_nat_nat_to_le)
qed

lemma slice_append_skip: "length xs = a \<Longrightarrow> a \<le> b \<Longrightarrow> slice a b (xs @ ys) = take (b - a) ys"
  by (simp add: slice_def)

lemma slice_drop_prefix:
  "length xs \<le> a \<Longrightarrow> slice a b (xs @ ys) = slice (a - length xs) (b - length xs) ys"
  by (simp add: slice_def diff_diff_eq2 diff_diff_left)

lemma slice_take_prefix: "length xs = b \<Longrightarrow> slice 0 b (xs @ ys) = xs"
  by (simp add: slice_def)

lemma length_slice [simp]: "b \<le> length xs \<Longrightarrow> length (slice a b xs) = b - a"
  by (simp add: slice_def)


section \<open>Ids do not repeat\<close>

lemma fst_generate_n:
  "fst (generate_n fs counter) = map (\<lambda>i. (fs ! i) (counter + word_of_nat i)) [0..<length fs]"
proof (induction fs arbitrary: counter)
  case (Cons f fs)
  have "map (\<lambda>i. ((f # fs) ! i) (counter + word_of_nat i)) [0..<length (f # fs)]
        = f counter # map (\<lambda>i. (fs ! i) ((counter + 1) + word_of_nat i)) [0..<length fs]"
    by (simp add: upt_conv_Cons map_Suc_upt [symmetric] add.assoc del: upt_Suc)
  then show ?case
    by (simp add: generate_def Cons.IH split_beta)
qed simp

lemma snd_generate_n: "snd (generate_n fs counter) = counter + word_of_nat (length fs)"
  by (induction fs arbitrary: counter) (simp_all add: generate_def split_beta add.assoc)

lemma generated_values_distinct:
  fixes counter :: u64
  assumes few: "length fs \<le> 2 ^ 64"
    and inner: "\<And>f x. f \<in> set fs \<Longrightarrow> inner (f x) = x"
  shows "distinct (map inner (fst (generate_n fs counter)))"
proof -
  have drawn: "map inner (fst (generate_n fs counter))
      = map (\<lambda>i. counter + word_of_nat i) [0..<length fs]"
    by (simp add: fst_generate_n inner)
  have "inj_on (\<lambda>i. counter + word_of_nat i) {0..<length fs}"
  proof (rule inj_onI)
    fix i j
    assume "i \<in> {0..<length fs}" "j \<in> {0..<length fs}"
      and same: "counter + word_of_nat i = counter + word_of_nat j"
    with few have "i < 2 ^ 64" "j < 2 ^ 64" by auto
    with same show "i = j" using u64_of_nat_inj [of i j] by simp
  qed
  then show ?thesis
    by (simp only: drawn) (simp add: distinct_map)
qed



fun id_value :: "request_id + subscriber_id \<Rightarrow> u64" where
  "id_value (Inl (RequestId n)) = n"
| "id_value (Inr (SubscriberId n)) = n"

text \<open>C31: Among any number of ids up to two to the 64th drawn in any order from the shared counter, as
  request ids or as subscriber ids, no number occurs twice, whatever the counter's value.\<close>

theorem generated_ids_unique:
  assumes "length kinds \<le> 2 ^ 64"
    and "set kinds \<subseteq> {Inl \<circ> RequestId, Inr \<circ> SubscriberId}"
  shows "distinct (map id_value (fst (generate_n kinds counter)))"
  using assms by (intro generated_values_distinct) auto

theorem generated_ids_unique_witness:
  "map id_value (fst (generate_n [Inl \<circ> RequestId, Inr \<circ> SubscriberId, Inl \<circ> RequestId] counter_init))
     = [1, 2, 3]
   \<and> distinct (map id_value
       (fst (generate_n [Inl \<circ> RequestId, Inr \<circ> SubscriberId, Inl \<circ> RequestId] counter_init)))"
proof
  show "distinct (map id_value
       (fst (generate_n [Inl \<circ> RequestId, Inr \<circ> SubscriberId, Inl \<circ> RequestId] counter_init)))"
    by (rule generated_ids_unique) auto
qed (simp add: generate_def counter_init_def)


section \<open>The delegation record is read back\<close>

text \<open>C30: Parsing inverts the on-chain layout: whatever the eight bytes before and the bytes after, the
  authority, owner, slot and lamports that were written are the ones read.\<close>

theorem from_bytes_layout:
  assumes "length discriminator = 8" and "wf_record r"
  shows "from_bytes (record_layout discriminator r trailing) = Some r"
  using assms
  by (simp add: from_bytes_def record_layout_def layout_defs wf_record_def pubkey_try_from_def
      slice_drop_prefix slice_take_prefix)

definition sample_record :: parsed_delegation_record where
  "sample_record = \<lparr>authority = SerdePubkey (Pubkey (replicate 32 1)),
     owner = SerdePubkey (Pubkey (replicate 32 2)), delegation_slot = 388473478, lamports = 15144960\<rparr>"

theorem from_bytes_layout_witness:
  "from_bytes (record_layout (replicate 8 100) sample_record [1, 2, 3]) = Some sample_record"
  by (rule from_bytes_layout) (simp_all add: wf_record_def sample_record_def)

text \<open>Parsing fails exactly on data shorter than 88 bytes, and never reads the bytes after them.\<close>

theorem from_bytes_needs_88_bytes:
  "(from_bytes data = None \<longleftrightarrow> length data < 88) \<and> (88 \<le> length data \<longrightarrow> from_bytes data = from_bytes (take 88 data))"
proof -
  have "slice a b (take 88 data) = slice a b data" if "a \<le> b" "b \<le> 88" for a b
    using that by (simp add: slice_def take_drop min_def)
  then show ?thesis
    by (simp add: from_bytes_def layout_defs pubkey_try_from_def u64_from_le_bytes_def)
qed

theorem from_bytes_needs_88_bytes_witness:
  "from_bytes (replicate 90 7) = from_bytes (take 88 (replicate 90 7)) \<and> from_bytes (replicate 87 7) = None"
  using from_bytes_needs_88_bytes [of "replicate 90 7"] from_bytes_needs_88_bytes [of "replicate 87 7"]
  by (simp only: length_replicate) simp

end
