(* ===== verification/Accounts.thy ===== *)
theory Accounts
  imports Types
begin

text \<open>
  \<open>src/accounts.rs\<close>: the delegation record's program-derived address, the handle of an in-progress
  cache fill and the cache entry.  A fill handle is the identity of its shared oneshot channel; the
  state of the channels of all fills is a table from identities to what the receivers can observe.
\<close>

section \<open>Addresses\<close>

definition ascii :: "string \<Rightarrow> u8 list" where
  "ascii s = map (\<lambda>c. word_of_nat (of_char c)) s"

definition DELEGATION_PROGRAM_STR :: string where
  "DELEGATION_PROGRAM_STR = ''DELeGGvXpWV2fqJUhqcF5ZSYMS4JTLjteaAMARRSaeSh''"

definition DELEGATION_RECORD_TAG :: "u8 list" where
  "DELEGATION_RECORD_TAG = ascii ''delegation''"

text \<open>\<open>find_program_address\<close> (seeds, program) and the decoded program id belong to the Solana
  crates and are arguments.\<close>

definition delegation_record_pda_from_delegated_account ::
  "(u8 list list \<Rightarrow> pubkey \<Rightarrow> pubkey \<times> u8) \<Rightarrow> pubkey \<Rightarrow> pubkey \<Rightarrow> pubkey" where
  "delegation_record_pda_from_delegated_account find_program_address program_id delegated_account =
     fst (find_program_address
            [DELEGATION_RECORD_TAG, pubkey_bytes delegated_account] program_id)"


section \<open>Pending fills\<close>

datatype pending_fill = PendingFill nat

text \<open>What the shared receiver of a fill yields: nothing yet, the record the owner sent, or the
  error of a dropped sender.\<close>

datatype fill_state =
    Unresolved
  | Resolved "parsed_delegation_record option"
  | Dropped

record fills =
  next_fill :: nat
  fill_result :: "nat \<Rightarrow> fill_state"
  fill_notified :: "nat list"

definition fills_init :: fills where
  "fills_init = \<lparr>next_fill = 0, fill_result = (\<lambda>_. Unresolved), fill_notified = []\<rparr>"

definition fill_new :: "fills \<Rightarrow> pending_fill \<times> fills" where
  "fill_new F = (PendingFill (next_fill F), F\<lparr>next_fill := Suc (next_fill F)\<rparr>)"

fun ptr_eq :: "pending_fill \<Rightarrow> pending_fill \<Rightarrow> bool" where
  "ptr_eq (PendingFill i) (PendingFill j) \<longleftrightarrow> i = j"

fun result_of :: "pending_fill \<Rightarrow> fills \<Rightarrow> fill_state" where
  "result_of (PendingFill i) F = fill_result F i"

text \<open>\<open>fill_tx.send\<close> and the drop of \<open>fill_tx\<close>; a sender is consumed by its first use.\<close>

fun fill_send :: "pending_fill \<Rightarrow> parsed_delegation_record option \<Rightarrow> fills \<Rightarrow> fills" where
  "fill_send (PendingFill i) r F =
     (case fill_result F i of
        Unresolved \<Rightarrow> F\<lparr>fill_result := (fill_result F)(i := Resolved r)\<rparr>
      | _ \<Rightarrow> F)"

fun fill_drop :: "pending_fill \<Rightarrow> fills \<Rightarrow> fills" where
  "fill_drop (PendingFill i) F =
     (case fill_result F i of
        Unresolved \<Rightarrow> F\<lparr>fill_result := (fill_result F)(i := Dropped)\<rparr>
      | _ \<Rightarrow> F)"

fun notify_filled :: "pending_fill \<Rightarrow> fills \<Rightarrow> fills" where
  "notify_filled (PendingFill i) F = F\<lparr>fill_notified := fill_notified F @ [i]\<rparr>"


section \<open>Cache entries\<close>

record delegation_entry =
  slot :: u64
  delegation :: "parsed_delegation_record option"
  pending_min_context_slot :: "u64 option"
  pending :: "pending_fill option"

definition entry_authority :: "delegation_entry \<Rightarrow> pubkey option" where
  "entry_authority e = map_option (\<lambda>r. serde_pubkey_inner (authority r)) (delegation e)"

text \<open>The test \<open>entry.pending_fill.as_ref().is_some_and(|p| p.ptr_eq(fill))\<close>.\<close>

definition holds_fill :: "delegation_entry \<Rightarrow> pending_fill \<Rightarrow> bool" where
  "holds_fill e f = (case pending e of None \<Rightarrow> False | Some p \<Rightarrow> ptr_eq p f)"

lemma ptr_eq_iff [simp]: "ptr_eq f g \<longleftrightarrow> f = g"
  by (cases f; cases g) simp

lemma holds_fill_iff [simp]: "holds_fill e f \<longleftrightarrow> pending e = Some f"
  by (auto simp: holds_fill_def split: option.splits)

end
