(* ===== verification/Errors.thy ===== *)
theory Errors
  imports Types
begin

text \<open>
  \<open>src/error.rs\<close>: the error enumeration, its display strings and its conversion to a JSON-RPC error
  object.  The errors of other crates that the enumeration wraps are kept by their display string;
  the base58 display of keys and signatures is an argument.
\<close>

datatype router_error =
    WsHandshake string
  | Rpc string
  | Io string
  | UnknownErNode pubkey
  | UnknownTransaction signature
  | SubscriptionTimetout string
  | DecodeError string
  | ConflictingDelegations

record display =
  show_pubkey :: "pubkey \<Rightarrow> string"
  show_signature :: "signature \<Rightarrow> string"

fun router_error_to_string :: "display \<Rightarrow> router_error \<Rightarrow> string" where
  "router_error_to_string d (WsHandshake e) = ''upstream websocket handshake: '' @ e"
| "router_error_to_string d (Rpc e) = ''solana rpc request error: '' @ e"
| "router_error_to_string d (Io e) = ''io error: '' @ e"
| "router_error_to_string d (UnknownErNode k) =
     ''account has been delegated to unknown ER node: '' @ show_pubkey d k"
| "router_error_to_string d (UnknownTransaction s) =
     ''transaction with given signature has never been encountered: '' @ show_signature d s"
| "router_error_to_string d (SubscriptionTimetout m) =
     ''timeout trying to confirm subscription: '' @ m"
| "router_error_to_string d (DecodeError e) = ''failed to decode request parameters: '' @ e"
| "router_error_to_string d ConflictingDelegations =
     ''transaction contains accounts that were delegated to different ER nodes''"

record error_object =
  code :: int
  message :: string

definition error_object_from :: "display \<Rightarrow> router_error \<Rightarrow> error_object" where
  "error_object_from d e = \<lparr>code = - 32604, message = router_error_to_string d e\<rparr>"

text \<open>\<open>From<client_error::Error>\<close> and \<open>RouterError::decode_error\<close>.\<close>

definition router_error_from_client :: "string \<Rightarrow> router_error" where
  "router_error_from_client e = Rpc e"

definition decode_error :: "string \<Rightarrow> router_error" where
  "decode_error e = DecodeError e"

end
