(* ===== verification/Metrics.thy ===== *)
theory Metrics
  imports Prelude
begin

text \<open>
  \<open>src/metrics.rs\<close>: the process-wide metric families, the guards that count live subscriptions, the
  JSON-RPC middleware that times calls, the HTTP middleware that serves scrapes and the sender that
  counts upstream requests.  A family maps each created label to its value.  The lemmas show that
  label sets stay bounded, that every dispatched call is counted once however it ends, and that the
  subscription gauge counts the live guards.
\<close>

section \<open>Families\<close>

type_synonym counter_vec = "string \<rightharpoonup> nat"

definition SUBSCRIPTION_KINDS :: "string list" where
  "SUBSCRIPTION_KINDS = [''account'', ''signature'']"

record metrics =
  m_requests :: counter_vec
  m_durations :: "string \<rightharpoonup> nat list"
  m_errors :: counter_vec
  m_upstream :: counter_vec
  m_sync :: counter_vec
  m_transitions :: counter_vec
  m_subscriptions :: "string \<rightharpoonup> int"
  m_notifications :: counter_vec
  m_methods :: "string list option"

text \<open>\<open>with_label_values\<close> creates the series of a label when it is first used.\<close>

definition with_label :: "'v \<Rightarrow> string \<Rightarrow> (string \<rightharpoonup> 'v) \<Rightarrow> (string \<rightharpoonup> 'v)" where
  "with_label zero l m = (case m l of None \<Rightarrow> m(l \<mapsto> zero) | Some _ \<Rightarrow> m)"

definition upd_label :: "'v \<Rightarrow> ('v \<Rightarrow> 'v) \<Rightarrow> string \<Rightarrow> (string \<rightharpoonup> 'v) \<Rightarrow> (string \<rightharpoonup> 'v)" where
  "upd_label zero f l m = (let m' = with_label zero l m in m'(l \<mapsto> f (the (m' l))))"

definition value_of :: "'v \<Rightarrow> (string \<rightharpoonup> 'v) \<Rightarrow> string \<Rightarrow> 'v" where
  "value_of zero m l = (case m l of None \<Rightarrow> zero | Some v \<Rightarrow> v)"

definition counter :: "string list \<Rightarrow> counter_vec" where
  "counter values = fold (with_label 0) values Map.empty"

definition metrics_new :: metrics where
  "metrics_new =
     \<lparr>m_requests = with_label 0 ''unknown'' (counter []),
      m_durations = with_label [] ''unknown'' Map.empty,
      m_errors = counter [''rpc'', ''delegation'', ''pubsub''],
      m_upstream = counter [''chain'', ''er''],
      m_sync = counter [''delegated_update'', ''undelegated_update'', ''interrupted'', ''terminated''],
      m_transitions = counter [''delegated'', ''undelegated'', ''redelegated''],
      m_subscriptions = fold (with_label 0) SUBSCRIPTION_KINDS Map.empty,
      m_notifications = counter SUBSCRIPTION_KINDS,
      m_methods = None\<rparr>"

text \<open>\<open>init\<close> fills the \<open>OnceLock\<close> on its first call only.\<close>

definition metrics_init :: "string list \<Rightarrow> metrics \<Rightarrow> metrics" where
  "metrics_init methods M =
     (case m_methods M of
        Some _ \<Rightarrow> M
      | None \<Rightarrow> M\<lparr>m_requests := fold (with_label 0) methods (m_requests M),
                  m_durations := fold (with_label []) methods (m_durations M),
                  m_methods := Some methods\<rparr>)"

definition metrics_error :: "string \<Rightarrow> metrics \<Rightarrow> metrics" where
  "metrics_error source M = M\<lparr>m_errors := upd_label 0 Suc source (m_errors M)\<rparr>"

definition metrics_sync_event :: "string \<Rightarrow> metrics \<Rightarrow> metrics" where
  "metrics_sync_event event M = M\<lparr>m_sync := upd_label 0 Suc event (m_sync M)\<rparr>"

definition metrics_transition :: "string \<Rightarrow> metrics \<Rightarrow> metrics" where
  "metrics_transition t M = M\<lparr>m_transitions := upd_label 0 Suc t (m_transitions M)\<rparr>"


section \<open>Subscription guards\<close>

record subscription_guard =
  guard_kind :: string

definition metrics_subscription :: "string \<Rightarrow> metrics \<Rightarrow> subscription_guard \<times> metrics" where
  "metrics_subscription kind M =
     (\<lparr>guard_kind = kind\<rparr>,
      M\<lparr>m_subscriptions := upd_label 0 (\<lambda>n. n + 1) kind (m_subscriptions M),
        m_notifications := with_label 0 kind (m_notifications M)\<rparr>)"

definition guard_notified :: "subscription_guard \<Rightarrow> metrics \<Rightarrow> metrics" where
  "guard_notified g M = M\<lparr>m_notifications := upd_label 0 Suc (guard_kind g) (m_notifications M)\<rparr>"

definition guard_drop :: "subscription_guard \<Rightarrow> metrics \<Rightarrow> metrics" where
  "guard_drop g M =
     M\<lparr>m_subscriptions := upd_label 0 (\<lambda>n. n - 1) (guard_kind g) (m_subscriptions M)\<rparr>"


section \<open>The JSON-RPC middleware\<close>

record request_timer =
  timer_metrics :: string
  timer_started :: nat

definition request_timer_drop :: "nat \<Rightarrow> request_timer \<Rightarrow> metrics \<Rightarrow> metrics" where
  "request_timer_drop now t M =
     M\<lparr>m_requests := upd_label 0 Suc (timer_metrics t) (m_requests M),
       m_durations :=
         upd_label [] (\<lambda>ds. ds @ [now - timer_started t]) (timer_metrics t) (m_durations M)\<rparr>"

datatype 'r poll = Pending | Ready 'r

record rpc_future =
  future_timer :: "request_timer option"

definition rpc_metrics_call :: "nat \<Rightarrow> string \<Rightarrow> metrics \<Rightarrow> rpc_future" where
  "rpc_metrics_call now method M =
     (let label = (case m_methods M of
                     None \<Rightarrow> ''unknown''
                   | Some methods \<Rightarrow> if method \<in> set methods then method else ''unknown'')
      in \<lparr>future_timer = Some \<lparr>timer_metrics = label, timer_started = now\<rparr>\<rparr>)"

definition rpc_future_drop :: "nat \<Rightarrow> rpc_future \<Rightarrow> metrics \<Rightarrow> metrics" where
  "rpc_future_drop now fut M =
     (case future_timer fut of None \<Rightarrow> M | Some t \<Rightarrow> request_timer_drop now t M)"

text \<open>One poll: \<open>inner\<close> is what the wrapped future answered and \<open>is_error\<close> the response's error
  flag.  \<open>timer.take()\<close> drops the timer.\<close>

definition rpc_future_poll ::
  "('r \<Rightarrow> bool) \<Rightarrow> nat \<Rightarrow> 'r poll \<Rightarrow> rpc_future \<times> metrics \<Rightarrow> 'r poll \<times> rpc_future \<times> metrics" where
  "rpc_future_poll is_error now inner s =
     (case inner of
        Pending \<Rightarrow> (Pending, s)
      | Ready response \<Rightarrow>
          (let (fut, M) = s;
               M1 = rpc_future_drop now fut M;
               M2 = (if is_error response then metrics_error ''rpc'' M1 else M1)
           in (Ready response, fut\<lparr>future_timer := None\<rparr>, M2)))"

text \<open>The life of one call: polls until the executor drops the future.\<close>

fun rpc_call_run ::
  "('r \<Rightarrow> bool) \<Rightarrow> (nat \<times> 'r poll) list \<Rightarrow> nat \<Rightarrow> rpc_future \<times> metrics \<Rightarrow> metrics" where
  "rpc_call_run is_error [] dropped_at (fut, M) = rpc_future_drop dropped_at fut M"
| "rpc_call_run is_error ((now, inner) # polls) dropped_at s =
     rpc_call_run is_error polls dropped_at (snd (rpc_future_poll is_error now inner s))"


section \<open>The HTTP middleware and the upstream sender\<close>

record http_request =
  http_method :: string
  http_path :: string
  http_is_upgrade :: bool

datatype ('resp, 'body) http_either = ToInner 'resp | Scrape nat 'body

text \<open>\<open>encode\<close> is the text encoder over the gathered registry; a failed encoding is answered with
  status 500.\<close>

definition http_metrics_call ::
  "(metrics \<Rightarrow> string option) \<Rightarrow> (http_request \<Rightarrow> 'resp) \<Rightarrow> http_request \<Rightarrow> metrics
    \<Rightarrow> ('resp, string) http_either" where
  "http_metrics_call encode inner req M =
     (if http_method req \<noteq> ''GET'' \<or> http_path req \<noteq> ''/metrics'' \<or> http_is_upgrade req
      then ToInner (inner req)
      else case encode M of
        Some body \<Rightarrow> Scrape 200 body
      | None \<Rightarrow> Scrape 500 ''failed to encode metrics'')"

record rpc_client =
  client_url :: string
  client_target :: string

definition metrics_upstream :: "string \<Rightarrow> metrics \<Rightarrow> metrics" where
  "metrics_upstream target M = M\<lparr>m_upstream := with_label 0 target (m_upstream M)\<rparr>"

definition metrics_client :: "string \<Rightarrow> string \<Rightarrow> rpc_client" where
  "metrics_client url target = \<lparr>client_url = url, client_target = target\<rparr>"

definition upstream_sender_send ::
  "(rpc_client \<Rightarrow> 'q \<Rightarrow> 'e + 'a) \<Rightarrow> rpc_client \<Rightarrow> 'q \<Rightarrow> metrics \<Rightarrow> ('e + 'a) \<times> metrics" where
  "upstream_sender_send http_send c request M =
     (http_send c request, M\<lparr>m_upstream := upd_label 0 Suc (client_target c) (m_upstream M)\<rparr>)"


section \<open>Labels and values\<close>

lemma dom_with_label [simp]: "dom (with_label z l m) = insert l (dom m)"
  by (auto simp: with_label_def split: option.splits)

lemma dom_upd_label [simp]: "dom (upd_label z f l m) = insert l (dom m)"
  by (simp add: upd_label_def Let_def)

lemma dom_fold_with_label [simp]: "dom (fold (with_label z) ls m) = set ls \<union> dom m"
  by (induction ls arbitrary: m) auto

lemma dom_counter [simp]: "dom (counter ls) = set ls"
  by (simp add: counter_def)

lemma value_with_label [simp]: "value_of z (with_label z l m) k = value_of z m k"
  by (auto simp: value_of_def with_label_def split: option.splits)

lemma value_upd_label [simp]:
  "value_of z (upd_label z f l m) k = (if k = l then f (value_of z m l) else value_of z m k)"
  by (auto simp: value_of_def with_label_def upd_label_def Let_def split: option.splits)

lemma value_fold_with_label [simp]: "value_of z (fold (with_label z) ls m) k = value_of z m k"
  by (induction ls arbitrary: m) simp_all


section \<open>Every dispatched call is counted once\<close>

lemma rpc_call_run_no_timer:
  "future_timer fut = None \<Longrightarrow> m_requests (rpc_call_run is_error polls d (fut, M)) = m_requests M"
proof (induction is_error polls d "(fut, M)" arbitrary: fut M rule: rpc_call_run.induct)
  case (2 is_error now inner polls dropped_at)
  show ?case
  proof (cases inner)
    case Pending
    with 2 show ?thesis by (simp add: rpc_future_poll_def)
  next
    case (Ready r)
    with 2(1) [of "fut\<lparr>future_timer := None\<rparr>"] 2(2) show ?thesis
      by (simp add: rpc_future_poll_def rpc_future_drop_def metrics_error_def Let_def)
  qed
qed (simp add: rpc_future_drop_def)

lemma rpc_call_run_timer:
  "future_timer fut = Some t \<Longrightarrow>
     m_requests (rpc_call_run is_error polls d (fut, M)) = upd_label 0 Suc (timer_metrics t) (m_requests M)"
proof (induction is_error polls d "(fut, M)" arbitrary: fut M rule: rpc_call_run.induct)
  case (2 is_error now inner polls dropped_at)
  show ?case
  proof (cases inner)
    case Pending
    with 2 show ?thesis by (simp add: rpc_future_poll_def)
  next
    case (Ready r)
    with 2(2) show ?thesis
      by (simp add: rpc_future_poll_def rpc_future_drop_def rpc_call_run_no_timer
          request_timer_drop_def metrics_error_def Let_def)
  qed
qed (simp add: rpc_future_drop_def request_timer_drop_def)


text \<open>The label a method is counted under.\<close>

definition method_label :: "string \<Rightarrow> metrics \<Rightarrow> string" where
  "method_label method M =
     (case m_methods M of
        None \<Rightarrow> ''unknown''
      | Some methods \<Rightarrow> if method \<in> set methods then method else ''unknown'')"

text \<open>C33: Every dispatched call is counted exactly once under its method, or under \<open>unknown\<close> when the method
  is not registered, however often it is polled and whether it finishes, fails or is dropped midway;
  no other series changes and no series is created for a name a client made up.\<close>

theorem every_call_counted_once:
  "value_of 0 (m_requests (rpc_call_run is_error polls dropped_at (rpc_metrics_call now method M, M))) l
     = value_of 0 (m_requests M) l + (if l = method_label method M then 1 else 0)
   \<and> dom (m_requests (rpc_call_run is_error polls dropped_at (rpc_metrics_call now method M, M)))
     = insert (method_label method M) (dom (m_requests M))
   \<and> method_label method M \<in> insert ''unknown'' (set (case m_methods M of None \<Rightarrow> [] | Some ms \<Rightarrow> ms))"
proof -
  have "future_timer (rpc_metrics_call now method M)
      = Some \<lparr>timer_metrics = method_label method M, timer_started = now\<rparr>"
    by (simp add: rpc_metrics_call_def method_label_def Let_def)
  note run = rpc_call_run_timer [OF this]
  show ?thesis by (simp add: run) (simp add: method_label_def split: option.splits)
qed


section \<open>The gauge counts the live guards\<close>

text \<open>Handlers open a guard, notify through it and drop it when they end or are cancelled.\<close>

datatype guard_op = Open string | Notify nat | Close nat

fun guard_step :: "guard_op \<Rightarrow> subscription_guard list \<times> metrics \<Rightarrow> subscription_guard list \<times> metrics" where
  "guard_step (Open kind) (gs, M) = (case metrics_subscription kind M of (g, M') \<Rightarrow> (gs @ [g], M'))"
| "guard_step (Notify i) (gs, M) = (if i < length gs then (gs, guard_notified (gs ! i) M) else (gs, M))"
| "guard_step (Close i) (gs, M) =
     (if i < length gs then (take i gs @ drop (Suc i) gs, guard_drop (gs ! i) M) else (gs, M))"

definition live :: "string \<Rightarrow> subscription_guard list \<Rightarrow> int" where
  "live kind gs = int (length (filter (\<lambda>g. guard_kind g = kind) gs))"

lemma live_remove:
  assumes "i < length gs"
  shows "live k (take i gs @ drop (Suc i) gs) = live k gs - (if guard_kind (gs ! i) = k then 1 else 0)"
proof -
  have "gs = take i gs @ gs ! i # drop (Suc i) gs" using assms by (rule id_take_nth_drop)
  then have "live k gs = live k (take i gs @ gs ! i # drop (Suc i) gs)" by simp
  then show ?thesis by (simp add: live_def)
qed

lemma guard_step_balance:
  "value_of 0 (m_subscriptions (snd (guard_step op S))) k - live k (fst (guard_step op S))
     = value_of 0 (m_subscriptions (snd S)) k - live k (fst S)"
proof (cases S; cases op)
  fix gs M i
  assume "S = (gs, M)" "op = Close i"
  then show ?thesis by (cases "i < length gs") (simp_all add: guard_drop_def live_remove)
qed (simp_all add: metrics_subscription_def guard_notified_def live_def)

text \<open>After any sequence of opening, notifying through and dropping subscription guards, the gauge of
  each kind is the number of live guards of that kind: no subscription is leaked or counted twice.\<close>

theorem gauge_counts_live_guards:
  "value_of 0 (m_subscriptions (snd (fold guard_step ops ([], metrics_new)))) k
     = live k (fst (fold guard_step ops ([], metrics_new)))"
proof -
  have "value_of 0 (m_subscriptions (snd (fold guard_step ops S))) k - live k (fst (fold guard_step ops S))
      = value_of 0 (m_subscriptions (snd S)) k - live k (fst S)" for S
    by (induction ops arbitrary: S) (simp_all add: guard_step_balance)
  moreover have "value_of 0 (m_subscriptions metrics_new) k = 0"
    by (simp add: metrics_new_def) (simp add: value_of_def)
  moreover have "live k [] = 0" by (simp add: live_def)
  ultimately show ?thesis by (metis diff_0_right eq_iff_diff_eq_0 fst_conv snd_conv)
qed

end
