(* ===== verification/Transactions.thy ===== *)
theory Transactions
  imports Types Metrics
begin

text \<open>
  \<open>src/cache/transactions.rs\<close>: the bounded cache from transaction signatures to the upstream they
  were forwarded to.  The backing \<open>scc::HashCache\<close> is represented by its contents; its \<open>put_async\<close> is
  an argument of the operations, and the locale \<open>hash_cache\<close> states what its documentation promises:
  a fresh key is stored, an existing key is left as it is, and at most one other entry is evicted.
\<close>

definition MIN_KEPT_TRANSACTION_COUNT :: nat where
  "MIN_KEPT_TRANSACTION_COUNT = 16384"

type_synonym url = string

record remote_handle =
  handle_rpc :: rpc_client
  handle_ws :: url

type_synonym ('k, 'v) put_op = "'k \<Rightarrow> 'v \<Rightarrow> ('k \<rightharpoonup> 'v) \<Rightarrow> ('k \<rightharpoonup> 'v)"

record forwarded_transactions =
  tx_cache :: "signature \<rightharpoonup> remote_handle"
  tx_min_capacity :: nat
  tx_max_capacity :: nat

definition forwarded_transactions_new :: "nat \<Rightarrow> forwarded_transactions" where
  "forwarded_transactions_new capacity =
     (let m = max MIN_KEPT_TRANSACTION_COUNT capacity
      in \<lparr>tx_cache = Map.empty, tx_min_capacity = MIN_KEPT_TRANSACTION_COUNT, tx_max_capacity = m\<rparr>)"

definition track ::
  "(signature, remote_handle) put_op \<Rightarrow> signature \<Rightarrow> remote_handle
    \<Rightarrow> forwarded_transactions \<Rightarrow> forwarded_transactions" where
  "track put_async sig handle T = T\<lparr>tx_cache := put_async sig handle (tx_cache T)\<rparr>"

definition get_transaction :: "signature \<Rightarrow> forwarded_transactions \<Rightarrow> remote_handle option" where
  "get_transaction sig T = tx_cache T sig"


section \<open>The contract of the bounded cache\<close>

locale hash_cache =
  fixes put :: "('k, 'v) put_op"
  assumes put_fresh: "m k = None \<Longrightarrow> put k v m k = Some v"
    and put_existing: "m k = Some w \<Longrightarrow> put k v m = m"
    and put_evicts_at_most_one:
      "m k = None \<Longrightarrow> \<exists>victim. \<forall>j. j \<noteq> k \<longrightarrow> put k v m j = (if victim = Some j then None else m j)"
begin

lemma put_present: "put k v m k \<noteq> None"
  by (cases "m k") (simp_all add: put_fresh put_existing)

lemma put_keeps_or_evicts: "j \<noteq> k \<Longrightarrow> put k v m j = m j \<or> put k v m j = None"
proof (cases "m k")
  case None
  assume "j \<noteq> k"
  with None put_evicts_at_most_one [of m k v] show ?thesis by (metis (full_types))
qed (simp add: put_existing)

lemma put_no_invention: "put k v m j = Some w \<Longrightarrow> m j = Some w \<or> (j = k \<and> w = v)"
  by (cases "j = k"; cases "m k")
     (use put_keeps_or_evicts [of j k v m] in \<open>auto simp: put_fresh put_existing\<close>)

text \<open>Two entries present before a put cannot both be gone after it.\<close>

lemma put_loses_at_most_one:
  assumes "m i = Some a" and "m j = Some b" and "i \<noteq> j"
  shows "put k v m i = Some a \<or> put k v m j = Some b"
proof (cases "m k")
  case None
  with assms have "i \<noteq> k" "j \<noteq> k" by auto
  with None put_evicts_at_most_one [of m k v] assms show ?thesis by (metis option.inject)
qed (simp add: put_existing assms)

end

text \<open>Every eviction policy that looks at the contents and the new key satisfies the contract.\<close>

definition put_with_policy :: "('k \<Rightarrow> ('k \<rightharpoonup> 'v) \<Rightarrow> 'k option) \<Rightarrow> ('k, 'v) put_op" where
  "put_with_policy victim k v m =
     (case m k of
        Some _ \<Rightarrow> m
      | None \<Rightarrow> (case victim k m of None \<Rightarrow> m | Some j \<Rightarrow> m(j := None))(k \<mapsto> v))"

interpretation policy_cache: hash_cache "put_with_policy victim"
proof
  show "put_with_policy victim k v m k = Some v" if "m k = None" for m k v
    using that by (simp add: put_with_policy_def)
  show "put_with_policy victim k v m = m" if "m k = Some w" for m k w v
    using that by (simp add: put_with_policy_def)
  show "\<exists>e. \<forall>j. j \<noteq> k \<longrightarrow> put_with_policy victim k v m j = (if e = Some j then None else m j)"
    if "m k = None" for m k v
    using that by (intro exI [of _ "victim k m"]) (auto simp: put_with_policy_def split: option.splits)
qed

lemma get_after_track:
  assumes "hash_cache put" and "get_transaction sig T = None"
  shows "get_transaction sig (track put sig h T) = Some h"
  using hash_cache.put_fresh [OF assms(1)] assms(2)
  by (simp add: get_transaction_def track_def)

lemma get_after_track_existing:
  assumes "hash_cache put" and "get_transaction sig T = Some h0"
  shows "track put sig h T = T"
  using hash_cache.put_existing [OF assms(1)] assms(2)
  by (simp add: get_transaction_def track_def)

lemma get_after_track_other:
  assumes "hash_cache put" and "sig' \<noteq> sig"
    and "get_transaction sig' (track put sig h T) = Some g"
  shows "get_transaction sig' T = Some g"
  using hash_cache.put_no_invention [OF assms(1), of sig h "tx_cache T" sig' g] assms(2,3)
  by (simp add: get_transaction_def track_def)

end
