(* ===== verification/Pubsub_Types.thy ===== *)
theory Pubsub_Types
  imports Types Transactions
begin

text \<open>
  The messages of the publish/subscribe side: \<open>src/pubsub/mod.rs\<close>, \<open>src/pubsub/subscription.rs\<close>,
  \<open>src/pubsub/notification.rs\<close> and \<open>WsUpstreamState\<close> of \<open>src/pubsub/dispatch.rs\<close>.  Channel endpoints
  are identified by numbers.  JSON values carry unsigned 64-bit numbers apart from every other
  number, since the classification of upstream messages asks for exactly those.
\<close>

section \<open>JSON\<close>

datatype json =
    JNull
  | JBool bool
  | JU64 u64
  | JNumber string
  | JString string
  | JArray "json list"
  | JObject "(string \<times> json) list"

fun json_get :: "json \<Rightarrow> string \<Rightarrow> json option" where
  "json_get (JObject fs) k = map_of fs k"
| "json_get _ k = None"

fun json_as_str :: "json \<Rightarrow> string option" where
  "json_as_str (JString s) = Some s"
| "json_as_str _ = None"

fun json_as_u64 :: "json \<Rightarrow> u64 option" where
  "json_as_u64 (JU64 n) = Some n"
| "json_as_u64 _ = None"

fun json_path :: "json \<Rightarrow> string list \<Rightarrow> json option" where
  "json_path v [] = Some v"
| "json_path v (p # ps) = (case json_get v p of None \<Rightarrow> None | Some w \<Rightarrow> json_path w ps)"


section \<open>Subscriptions\<close>

datatype upstream_kind = Chain | Ephem

type_synonym channel = nat

record subscription =
  sub_request_id :: request_id
  sub_subscriber_id :: subscriber_id
  sub_payload :: json
  sub_tx :: channel
  sub_destination :: url
  sub_upstream :: upstream_kind

definition clone_with_destination :: "subscription \<Rightarrow> url \<Rightarrow> subscription" where
  "clone_with_destination s u = s\<lparr>sub_destination := u\<rparr>"

record unsubscription =
  unsub_subscriber_id :: subscriber_id
  unsub_request_id :: request_id
  unsub_method :: string

fun request_id_json :: "request_id \<Rightarrow> json" where
  "request_id_json (RequestId n) = JU64 n"

definition json_of_option :: "json option \<Rightarrow> json" where
  "json_of_option j = (case j of None \<Rightarrow> JNull | Some v \<Rightarrow> v)"

text \<open>The request bodies; \<open>show_key\<close> is the base58 rendering and \<open>params\<close> the serialized
  configuration object.\<close>

definition account_subscription_json ::
  "(pubkey \<Rightarrow> string) \<Rightarrow> request_id \<Rightarrow> pubkey \<Rightarrow> json option \<Rightarrow> json" where
  "account_subscription_json show_key rid key params =
     JObject [(''jsonrpc'', JString ''2.0''), (''id'', request_id_json rid),
              (''method'', JString ''accountSubscribe''),
              (''params'', JArray [JString (show_key key), json_of_option params])]"

definition signature_subscription_json ::
  "(signature \<Rightarrow> string) \<Rightarrow> request_id \<Rightarrow> signature \<Rightarrow> json option \<Rightarrow> json" where
  "signature_subscription_json show_sig rid sig params =
     JObject [(''jsonrpc'', JString ''2.0''), (''id'', request_id_json rid),
              (''method'', JString ''signatureSubscribe''),
              (''params'', JArray [JString (show_sig sig), json_of_option params])]"

definition program_subscription_json ::
  "(pubkey \<Rightarrow> string) \<Rightarrow> request_id \<Rightarrow> pubkey \<Rightarrow> json option \<Rightarrow> json" where
  "program_subscription_json show_key rid key params =
     JObject [(''jsonrpc'', JString ''2.0''), (''id'', request_id_json rid),
              (''method'', JString ''programSubscribe''),
              (''params'', JArray [JString (show_key key), json_of_option params])]"


section \<open>Notifications\<close>

record subscription_handle =
  sh_request_id :: request_id
  sh_unsub :: channel
  sh_upstream :: upstream_kind

datatype pubsub_message =
    Subscribed subscription_handle
  | Notification request_id upstream_kind json
  | Disconnected request_id

record subscription_result =
  sr_id :: request_id
  sr_result :: subscription_id

record notification_params =
  np_result :: json
  np_subscription :: subscription_id

datatype websocket_message =
    WsSubscribed subscription_result
  | WsUnsubscribed request_id
  | WsNotification notification_params

definition json_request_id :: "json \<Rightarrow> request_id option" where
  "json_request_id v =
     (case json_get v ''id'' of
        None \<Rightarrow> None
      | Some i \<Rightarrow> map_option RequestId (json_as_u64 i))"

definition json_subscription_result :: "json \<Rightarrow> subscription_result option" where
  "json_subscription_result v =
     (case (json_request_id v, json_get v ''result'') of
        (Some i, Some r) \<Rightarrow>
          map_option (\<lambda>n. \<lparr>sr_id = i, sr_result = n\<rparr>) (json_as_u64 r)
      | _ \<Rightarrow> None)"

definition json_notification :: "json \<Rightarrow> notification_params option" where
  "json_notification v =
     (case (json_path v [''params'', ''result''], json_path v [''params'', ''subscription'']) of
        (Some r, Some s) \<Rightarrow>
          map_option (\<lambda>n. \<lparr>np_result = r, np_subscription = n\<rparr>) (json_as_u64 s)
      | _ \<Rightarrow> None)"

text \<open>The classification of an upstream message; \<open>None\<close> is the deserialization error.\<close>

definition websocket_message_deserialize :: "json \<Rightarrow> websocket_message option" where
  "websocket_message_deserialize buffer =
     (case json_get buffer ''result'' of
        Some result \<Rightarrow>
          if json_as_u64 result \<noteq> None
          then map_option WsSubscribed (json_subscription_result buffer)
          else map_option WsUnsubscribed (json_request_id buffer)
      | None \<Rightarrow> map_option WsNotification (json_notification buffer))"

text \<open>\<open>deserialize_field\<close> with the typed reading of the value as \<open>from_value\<close>, and
  \<open>deserialize_account\<close> with the account decoder as argument.\<close>

definition deserialize_field :: "(json \<Rightarrow> 'f option) \<Rightarrow> json \<Rightarrow> string list \<Rightarrow> 'f option" where
  "deserialize_field from_value payload path =
     (case json_path payload path of None \<Rightarrow> None | Some v \<Rightarrow> from_value v)"

record account =
  account_lamports :: u64
  account_data :: "u8 list"

definition deserialize_account ::
  "(json \<Rightarrow> 'ui option) \<Rightarrow> ('ui \<Rightarrow> account option) \<Rightarrow> json \<Rightarrow> string list \<Rightarrow> account option" where
  "deserialize_account from_value decode payload path =
     (case deserialize_field from_value payload path of None \<Rightarrow> None | Some ui \<Rightarrow> decode ui)"


section \<open>Upstream state\<close>

record ws_upstream_state =
  is_online :: bool
  state_url :: url
  state_target :: upstream_kind

end
