(* ===== verification/Routes.thy ===== *)
theory Routes
  imports Types Errors Metrics Transactions Pubsub_Types
begin

text \<open>
  \<open>src/cache/routes.rs\<close>: the routing table from ER identities to upstreams, the round-robin choice of
  a base chain endpoint, the choice of the closest ER by averaged ping times, the maintenance of the
  table from domain-registry accounts and the updater loop.  The concurrent maps are kept as
  association lists in iteration order.  Code of other crates is an argument (\<open>route_env\<close>): URL
  parsing, the identity probe, the registry decoder and the two \<open>insert_sync\<close> operations, whose
  documented behaviour is the locale \<open>scc_insert\<close>.  Time is in microseconds.
\<close>

section \<open>State\<close>

definition PROXIMITY_PING_TIMEOUT :: nat where
  "PROXIMITY_PING_TIMEOUT = 3 * 1000000"

definition MAX_PROXIMITY_PING_FAILURES :: u8 where
  "MAX_PROXIMITY_PING_FAILURES = 3"

definition STALE_PROXIMITY_MULTIPLIER :: u64 where
  "STALE_PROXIMITY_MULTIPLIER = 3"

record upstream_record =
  client :: rpc_client
  ws_url :: url
  proximity_micros :: u64
  last_proximity_update :: "nat option"
  consecutive_ping_failures :: u8
  info :: "route_info option"

record base_chain_upstreams =
  upstreams :: "upstream_record list"
  next_index :: nat

record routing_table =
  inner :: "(pubkey \<times> upstream_record) list"
  pda_to_identity :: "(pubkey \<times> pubkey) list"
  base_chain_ups :: base_chain_upstreams
  dispatcher_tx :: "subscription list"
  upstream_state_tx :: "ws_upstream_state list"
  proximity_stale_after :: nat
  static_er_identity :: "pubkey option"

type_synonym ('k, 'v) insert_op = "'k \<Rightarrow> 'v \<Rightarrow> ('k \<times> 'v) list \<Rightarrow> ('k \<times> 'v) list"

record route_env =
  parse_url :: "string \<Rightarrow> url option"
  url_scheme :: "url \<Rightarrow> string"
  url_set_scheme :: "url \<Rightarrow> string \<Rightarrow> url option"
  probe_identity :: "rpc_client \<Rightarrow> bool"
  decode_er_record :: "u8 list \<Rightarrow> er_record option"
  insert_route :: "(pubkey, upstream_record) insert_op"
  insert_pda :: "(pubkey, pubkey) insert_op"


section \<open>Upstream records\<close>

definition new_from_url :: "route_env \<Rightarrow> url \<Rightarrow> route_info option \<Rightarrow> upstream_record option" where
  "new_from_url E url i =
     (let target = (if i \<noteq> None then ''er'' else ''chain'');
          c = metrics_client url target
      in if \<not> probe_identity E c then None
         else let scheme = (if url_scheme E url = ''https'' then ''wss'' else ''ws'')
              in case url_set_scheme E url scheme of
                   None \<Rightarrow> None
                 | Some ws \<Rightarrow>
                     Some \<lparr>client = c, ws_url = ws, proximity_micros = u64_max,
                           last_proximity_update = None, consecutive_ping_failures = 0,
                           info = i\<rparr>)"

definition new_from_er_record :: "route_env \<Rightarrow> er_record \<Rightarrow> upstream_record option" where
  "new_from_er_record E r =
     (case parse_url E (er_addr r) of
        None \<Rightarrow> None
      | Some u \<Rightarrow> new_from_url E u (Some (route_info_from r)))"

definition has_fresh_proximity :: "nat \<Rightarrow> nat \<Rightarrow> upstream_record \<Rightarrow> bool" where
  "has_fresh_proximity now stale_after r =
     (if MAX_PROXIMITY_PING_FAILURES \<le> consecutive_ping_failures r then False
      else case last_proximity_update r of
        None \<Rightarrow> False
      | Some updated_at \<Rightarrow> now - updated_at \<le> stale_after)"

text \<open>The moving average is computed in \<open>u64\<close>, so the products wrap around.\<close>

definition update_proximity :: "nat \<Rightarrow> nat \<Rightarrow> upstream_record \<Rightarrow> upstream_record" where
  "update_proximity now duration r =
     (let last = (word_of_nat duration :: u64);
          p = (if proximity_micros r = u64_max then last
               else (proximity_micros r * 85 + last * 15) div 100)
      in r\<lparr>proximity_micros := p, last_proximity_update := Some now,
           consecutive_ping_failures := 0\<rparr>)"

definition register_ping_failure :: "upstream_record \<Rightarrow> upstream_record" where
  "register_ping_failure r =
     (let failures = saturating_add (consecutive_ping_failures r) 1;
          r' = r\<lparr>consecutive_ping_failures := failures\<rparr>
      in if MAX_PROXIMITY_PING_FAILURES \<le> failures then r'\<lparr>proximity_micros := u64_max\<rparr> else r')"


section \<open>Lookups\<close>

definition ephemeral_client :: "pubkey \<Rightarrow> routing_table \<Rightarrow> rpc_client option" where
  "ephemeral_client identity rt = map_option client (map_of (inner rt) identity)"

definition ephemeral_handle :: "pubkey \<Rightarrow> routing_table \<Rightarrow> remote_handle option" where
  "ephemeral_handle identity rt =
     map_option (\<lambda>e. \<lparr>handle_rpc = client e, handle_ws = ws_url e\<rparr>) (map_of (inner rt) identity)"

text \<open>
  \<open>fetch_update\<close> stores the successor and returns the previous index.  The constructor panics on an
  empty list of endpoints (\<open>routing_table_new\<close>), so the list is not empty here.
\<close>

definition base_chain :: "routing_table \<Rightarrow> upstream_record \<times> routing_table" where
  "base_chain rt =
     (let b = base_chain_ups rt; n = length (upstreams b); index = next_index b
      in (upstreams b ! index,
          rt\<lparr>base_chain_ups := b\<lparr>next_index := (index + 1) mod n\<rparr>\<rparr>))"

fun closest_scan ::
  "nat \<Rightarrow> nat \<Rightarrow> (pubkey \<times> upstream_record) list \<Rightarrow> pubkey \<times> rpc_client \<times> u64
    \<Rightarrow> pubkey \<times> rpc_client \<times> u64" where
  "closest_scan now stale_after [] best = best"
| "closest_scan now stale_after ((key, r) # rest) (node_id, c, min_proximity) =
     (if \<not> has_fresh_proximity now stale_after r
      then closest_scan now stale_after rest (node_id, c, min_proximity)
      else if min_proximity \<le> proximity_micros r
      then closest_scan now stale_after rest (node_id, c, min_proximity)
      else closest_scan now stale_after rest (key, client r, proximity_micros r))"

definition closest_node ::
  "nat \<Rightarrow> routing_table \<Rightarrow> (router_error, serde_pubkey \<times> rpc_client) result \<times> routing_table" where
  "closest_node now rt =
     (case static_er_identity rt of
        Some identity \<Rightarrow>
          (case map_of (inner rt) identity of
             None \<Rightarrow> (Inl (UnknownErNode identity), rt)
           | Some r \<Rightarrow> (Inr (SerdePubkey identity, client r), rt))
      | None \<Rightarrow>
          (let (b, rt') = base_chain rt;
               (node_id, c, _) =
                 closest_scan now (proximity_stale_after rt') (inner rt')
                   (pubkey_default, client b, u64_max)
           in (Inr (SerdePubkey node_id, c), rt')))"

definition all_routes :: "routing_table \<Rightarrow> route_info list" where
  "all_routes rt = List.map_filter (\<lambda>(_, r). info r) (inner rt)"


section \<open>Maintenance of the table\<close>

definition send_state :: "ws_upstream_state \<Rightarrow> routing_table \<Rightarrow> routing_table" where
  "send_state st rt = rt\<lparr>upstream_state_tx := upstream_state_tx rt @ [st]\<rparr>"

definition remove_entry :: "pubkey \<Rightarrow> routing_table \<Rightarrow> routing_table" where
  "remove_entry pda rt =
     (case map_of (pda_to_identity rt) pda of
        None \<Rightarrow> rt
      | Some identity \<Rightarrow>
          (let rt1 = rt\<lparr>pda_to_identity := filter (\<lambda>(k, _). k \<noteq> pda) (pda_to_identity rt)\<rparr>
           in case map_of (inner rt1) identity of
                None \<Rightarrow> rt1
              | Some u \<Rightarrow>
                  send_state \<lparr>is_online = False, state_url = ws_url u, state_target = Ephem\<rparr>
                    (rt1\<lparr>inner := filter (\<lambda>(k, _). k \<noteq> identity) (inner rt1)\<rparr>)))"

definition inherit_proximity :: "upstream_record option \<Rightarrow> upstream_record \<Rightarrow> upstream_record" where
  "inherit_proximity current u =
     (case current of
        None \<Rightarrow> u
      | Some cur \<Rightarrow>
          if ws_url cur = ws_url u
          then u\<lparr>proximity_micros := proximity_micros cur,
                 last_proximity_update := last_proximity_update cur,
                 consecutive_ping_failures := consecutive_ping_failures cur\<rparr>
          else u)"

definition insert_entry :: "route_env \<Rightarrow> pubkey \<Rightarrow> account \<Rightarrow> routing_table \<Rightarrow> routing_table" where
  "insert_entry E key acct rt =
     (case decode_er_record E (account_data acct) of
        None \<Rightarrow> if account_lamports acct = 0 then remove_entry key rt else rt
      | Some r \<Rightarrow>
          (case new_from_er_record E r of
             None \<Rightarrow> rt
           | Some fresh \<Rightarrow>
               (let identity = er_identity r;
                    u = inherit_proximity (map_of (inner rt) identity) fresh;
                    rt1 = rt\<lparr>pda_to_identity := insert_pda E key identity (pda_to_identity rt)\<rparr>;
                    rt2 = send_state
                            \<lparr>is_online = er_status_active r, state_url = ws_url u,
                             state_target = Ephem\<rparr> rt1
                in rt2\<lparr>inner := insert_route E identity u (inner rt2)\<rparr>)))"

text \<open>
  The constructor.  \<open>None\<close> is a panic: an unusable endpoint (\<open>expect\<close>), or an empty endpoint list,
  for which the first call of \<open>base_chain\<close> computes a remainder by zero.  \<open>program_accounts\<close> is what
  the endpoint answers for the domain program.  Before it returns, the constructor waits for the
  dispatcher's start-up signal; that this signal is given is shown in the theory \<open>Startup\<close>.
\<close>

fun new_upstreams :: "route_env \<Rightarrow> url list \<Rightarrow> upstream_record list option" where
  "new_upstreams E [] = Some []"
| "new_upstreams E (u # us) =
     (case new_from_url E u None of
        None \<Rightarrow> None
      | Some r \<Rightarrow> map_option (\<lambda>rs. r # rs) (new_upstreams E us))"

definition chain_online :: "upstream_record \<Rightarrow> ws_upstream_state" where
  "chain_online u = \<lparr>is_online = True, state_url = ws_url u, state_target = Chain\<rparr>"

definition routing_table_new ::
  "route_env \<Rightarrow> (rpc_client \<Rightarrow> (string, (pubkey \<times> account) list) result) \<Rightarrow> url list \<Rightarrow> u64
    \<Rightarrow> pubkey option \<Rightarrow> (router_error, routing_table) result option" where
  "routing_table_new E program_accounts urls ping_frequency static_id =
     (case new_upstreams E urls of
        None \<Rightarrow> None
      | Some ups \<Rightarrow>
          if ups = [] then None
          else
            let this = \<lparr>inner = [], pda_to_identity = [],
                        base_chain_ups = \<lparr>upstreams = ups, next_index = 0\<rparr>,
                        dispatcher_tx = [], upstream_state_tx = map chain_online ups,
                        proximity_stale_after =
                          unat (saturating_mul ping_frequency STALE_PROXIMITY_MULTIPLIER) * 1000000,
                        static_er_identity = static_id\<rparr>;
                (b, this1) = base_chain this
            in case program_accounts (client b) of
                 Inl e \<Rightarrow> Some (Inl (router_error_from_client e))
               | Inr accounts \<Rightarrow>
                   (let this2 = fold (\<lambda>(key, acct). insert_entry E key acct) accounts this1
                    in case static_id of
                         Some identity \<Rightarrow>
                           if map_of (inner this2) identity = None
                           then Some (Inl (UnknownErNode identity))
                           else Some (Inr this2)
                       | None \<Rightarrow> Some (Inr this2)))"


section \<open>The updater loop\<close>

text \<open>
  One iteration of the \<open>select!\<close> loop per event.  \<open>up_pings\<close> are the identity probes in flight; the
  events of finished probes are for keys among them.  \<open>parse_pubkey\<close> and \<open>decode_ui_account\<close> belong to
  the Solana crates.
\<close>

record updater_env =
  routes_env :: route_env
  parse_pubkey :: "string \<Rightarrow> pubkey option"
  decode_ui_account :: "json \<Rightarrow> account option"

record updater_state =
  up_table :: routing_table
  up_subscription :: subscription
  up_pings :: "pubkey list"

datatype updater_event =
    UMessage pubsub_message
  | UPingOk nat pubkey nat
  | UPingErr pubkey
  | UTick

definition send_subscription :: "subscription \<Rightarrow> routing_table \<Rightarrow> routing_table" where
  "send_subscription sub rt = rt\<lparr>dispatcher_tx := dispatcher_tx rt @ [sub]\<rparr>"

definition updater_start ::
  "(pubkey \<Rightarrow> string) \<Rightarrow> pubkey \<Rightarrow> channel \<Rightarrow> u64 \<Rightarrow> routing_table \<Rightarrow> updater_state \<times> u64" where
  "updater_start show_key mdp_id tx ctr rt =
     (let (rid, ctr1) = generate RequestId ctr;
          (sid, ctr2) = generate SubscriberId ctr1;
          (b, rt1) = base_chain rt;
          sub = \<lparr>sub_request_id = rid, sub_subscriber_id = sid,
                 sub_payload = program_subscription_json show_key rid mdp_id None,
                 sub_tx = tx, sub_destination = ws_url b, sub_upstream = Chain\<rparr>
      in (\<lparr>up_table = send_subscription sub rt1, up_subscription = sub, up_pings = []\<rparr>, ctr2))"

definition modify_entry ::
  "pubkey \<Rightarrow> (upstream_record \<Rightarrow> upstream_record) \<Rightarrow> routing_table \<Rightarrow> routing_table" where
  "modify_entry key f rt = rt\<lparr>inner := map (\<lambda>(k, r). (k, if k = key then f r else r)) (inner rt)\<rparr>"

fun updater_step :: "updater_env \<Rightarrow> updater_event \<Rightarrow> updater_state \<Rightarrow> updater_state" where
  "updater_step E (UMessage (Subscribed h)) s = s"
| "updater_step E (UMessage (Notification rid up payload)) s =
     (case deserialize_field json_as_str payload [''value'', ''pubkey''] of
        None \<Rightarrow> s
      | Some str \<Rightarrow>
          (case parse_pubkey E str of
             None \<Rightarrow> s
           | Some key \<Rightarrow>
               (case deserialize_account Some (decode_ui_account E) payload [''value'', ''account''] of
                  None \<Rightarrow> s
                | Some acct \<Rightarrow> s\<lparr>up_table := insert_entry (routes_env E) key acct (up_table s)\<rparr>)))"
| "updater_step E (UMessage (Disconnected rid)) s =
     (let (b, rt) = base_chain (up_table s);
          sub = (up_subscription s)\<lparr>sub_destination := ws_url b\<rparr>
      in s\<lparr>up_table := send_subscription sub rt, up_subscription := sub\<rparr>)"
| "updater_step E (UPingOk now key duration) s =
     s\<lparr>up_table := modify_entry key (update_proximity now duration) (up_table s),
       up_pings := remove1 key (up_pings s)\<rparr>"
| "updater_step E (UPingErr key) s =
     s\<lparr>up_table := modify_entry key register_ping_failure (up_table s),
       up_pings := remove1 key (up_pings s)\<rparr>"
| "updater_step E UTick s =
     (if static_er_identity (up_table s) \<noteq> None then s
      else s\<lparr>up_pings := up_pings s @ map fst (inner (up_table s))\<rparr>)"

text \<open>Every event comes with the answers the outside world gives at that time.\<close>

definition updater :: "(updater_env \<times> updater_event) list \<Rightarrow> updater_state \<Rightarrow> updater_state" where
  "updater events s = fold (\<lambda>(E, e). updater_step E e) events s"


section \<open>The contract of the concurrent map's insertion\<close>

locale scc_insert =
  fixes ins :: "('k, 'v) insert_op"
  assumes ins_existing: "map_of m k = Some w \<Longrightarrow> ins k v m = m"
    and ins_fresh: "map_of m k = None \<Longrightarrow> map_of (ins k v m) = (map_of m)(k \<mapsto> v)"
    and ins_distinct:
      "\<lbrakk>map_of m k = None; distinct (map fst m)\<rbrakk> \<Longrightarrow> distinct (map fst (ins k v m))"
begin

lemma ins_lookup:
  "map_of (ins k v m) j = (if j = k \<and> map_of m k = None then Some v else map_of m j)"
  by (cases "map_of m k") (auto simp: ins_fresh ins_existing)

lemma ins_keeps_distinct: "distinct (map fst m) \<Longrightarrow> distinct (map fst (ins k v m))"
  by (cases "map_of m k") (auto simp: ins_distinct ins_existing)

lemma ins_keeps_all:
  assumes "\<And>j w. map_of m j = Some w \<Longrightarrow> P j w" and "map_of m k = None \<Longrightarrow> P k v"
    and "map_of (ins k v m) j = Some w"
  shows "P j w"
  using assms by (auto simp: ins_lookup split: if_splits)

end

definition append_if_absent :: "('k, 'v) insert_op" where
  "append_if_absent k v m = (if map_of m k = None then m @ [(k, v)] else m)"

interpretation alist_map: scc_insert append_if_absent
proof
  show "append_if_absent k v m = m" if "map_of m k = Some w" for m k w v
    using that by (simp add: append_if_absent_def)
  show "map_of (append_if_absent k v m) = (map_of m)(k \<mapsto> v)" if "map_of m k = None" for m k v
    using that by (auto simp: append_if_absent_def map_add_def split: option.splits)
  show "distinct (map fst (append_if_absent k v m))"
    if "map_of m k = None" "distinct (map fst m)" for m k v
    using that by (auto simp: append_if_absent_def map_of_eq_None_iff)
qed

lemmas scc_insert_lookup = scc_insert.ins_lookup


section \<open>Round robin over the base chain\<close>

definition wf_base :: "routing_table \<Rightarrow> bool" where
  "wf_base rt \<longleftrightarrow> next_index (base_chain_ups rt) < length (upstreams (base_chain_ups rt))"

fun base_chain_n :: "nat \<Rightarrow> routing_table \<Rightarrow> upstream_record list \<times> routing_table" where
  "base_chain_n 0 rt = ([], rt)"
| "base_chain_n (Suc k) rt =
     (let (b, rt1) = base_chain rt; (bs, rt2) = base_chain_n k rt1 in (b # bs, rt2))"

lemma base_chain_frame [simp]:
  "inner (snd (base_chain rt)) = inner rt"
  "pda_to_identity (snd (base_chain rt)) = pda_to_identity rt"
  "dispatcher_tx (snd (base_chain rt)) = dispatcher_tx rt"
  "upstream_state_tx (snd (base_chain rt)) = upstream_state_tx rt"
  "proximity_stale_after (snd (base_chain rt)) = proximity_stale_after rt"
  "static_er_identity (snd (base_chain rt)) = static_er_identity rt"
  "upstreams (base_chain_ups (snd (base_chain rt))) = upstreams (base_chain_ups rt)"
  by (simp_all add: base_chain_def Let_def)

lemma base_chain_next [simp]:
  "next_index (base_chain_ups (snd (base_chain rt)))
     = Suc (next_index (base_chain_ups rt)) mod length (upstreams (base_chain_ups rt))"
  by (simp add: base_chain_def Let_def)

lemma wf_base_step [simp]: "wf_base rt \<Longrightarrow> wf_base (snd (base_chain rt))"
  by (auto simp: wf_base_def intro: mod_less_divisor)

lemma base_chain_mem: "wf_base rt \<Longrightarrow> fst (base_chain rt) \<in> set (upstreams (base_chain_ups rt))"
  by (simp add: wf_base_def base_chain_def Let_def)

lemma base_chain_n_upstreams [simp]:
  "upstreams (base_chain_ups (snd (base_chain_n k rt))) = upstreams (base_chain_ups rt)"
  by (induction k arbitrary: rt) (simp_all add: split_beta)

lemma base_chain_n_picks:
  assumes "wf_base rt"
  shows "fst (base_chain_n k rt) =
    map (\<lambda>i. upstreams (base_chain_ups rt) !
          ((next_index (base_chain_ups rt) + i) mod length (upstreams (base_chain_ups rt)))) [0..<k]"
  using assms
proof (induction k arbitrary: rt)
  case (Suc k)
  let ?ups = "upstreams (base_chain_ups rt)" and ?n = "next_index (base_chain_ups rt)"
  from Suc.prems have "fst (base_chain rt) = ?ups ! (?n mod length ?ups)"
    by (simp add: base_chain_def wf_base_def Let_def)
  moreover have "fst (base_chain_n k (snd (base_chain rt)))
      = map (\<lambda>i. ?ups ! ((?n + Suc i) mod length ?ups)) [0..<k]"
    using Suc.IH [OF wf_base_step [OF Suc.prems]] by (simp add: mod_add_left_eq)
  ultimately show ?case
    by (simp add: split_beta upt_conv_Cons map_Suc_upt [symmetric] comp_def del: upt_Suc)
qed simp

lemma rotate_conv_map:
  "xs \<noteq> [] \<Longrightarrow> rotate n xs = map (\<lambda>i. xs ! ((n + i) mod length xs)) [0..<length xs]"
  by (rule nth_equalityI) (simp_all add: nth_rotate)

lemma base_chain_cycle:
  assumes "wf_base rt"
  shows "fst (base_chain_n (length (upstreams (base_chain_ups rt))) rt)
    = rotate (next_index (base_chain_ups rt)) (upstreams (base_chain_ups rt))"
proof -
  from assms have "upstreams (base_chain_ups rt) \<noteq> []" by (auto simp: wf_base_def)
  then show ?thesis by (simp add: base_chain_n_picks [OF assms] rotate_conv_map)
qed


text \<open>C15: Starting from any state of a table whose index is in range, as many consecutive calls of
  \<open>base_chain\<close> as there are endpoints return every endpoint once, in cyclic order from the current
  one, and leave the table as it was.\<close>

theorem base_chain_round_robin:
  assumes "wf_base rt"
  shows "base_chain_n (length (upstreams (base_chain_ups rt))) rt
    = (rotate (next_index (base_chain_ups rt)) (upstreams (base_chain_ups rt)), rt)"
proof (rule prod_eqI)
  have "snd (base_chain_n k rt) = rt\<lparr>base_chain_ups := (base_chain_ups rt)
          \<lparr>next_index := (next_index (base_chain_ups rt) + k) mod length (upstreams (base_chain_ups rt))\<rparr>\<rparr>"
    for k
    using assms
  proof (induction k arbitrary: rt)
    case (Suc k)
    from Suc.IH [OF wf_base_step [OF Suc.prems]] show ?case
      by (simp add: split_beta mod_add_left_eq base_chain_def Let_def)
  qed (simp add: wf_base_def)
  with assms show "snd (base_chain_n (length (upstreams (base_chain_ups rt))) rt)
      = snd (rotate (next_index (base_chain_ups rt)) (upstreams (base_chain_ups rt)), rt)"
    by (simp add: wf_base_def)
qed (simp add: base_chain_cycle assms)

definition sample_upstream :: "string \<Rightarrow> upstream_record" where
  "sample_upstream u =
     \<lparr>client = metrics_client u ''chain'', ws_url = u, proximity_micros = u64_max,
      last_proximity_update = None, consecutive_ping_failures = 0, info = None\<rparr>"

definition sample_table :: routing_table where
  "sample_table =
     \<lparr>inner = [], pda_to_identity = [],
      base_chain_ups = \<lparr>upstreams = [sample_upstream ''a'', sample_upstream ''b'', sample_upstream ''c''],
                        next_index = 1\<rparr>,
      dispatcher_tx = [], upstream_state_tx = [], proximity_stale_after = 90000000,
      static_er_identity = None\<rparr>"

theorem base_chain_round_robin_witness:
  "fst (base_chain_n 3 sample_table)
    = [sample_upstream ''b'', sample_upstream ''c'', sample_upstream ''a'']"
  using base_chain_round_robin [of sample_table]
  by (simp add: sample_table_def wf_base_def numeral_3_eq_3)


section \<open>The closest node\<close>

definition closest_spec ::
  "nat \<Rightarrow> nat \<Rightarrow> (pubkey \<times> upstream_record) list \<Rightarrow> pubkey \<times> rpc_client \<times> u64
    \<Rightarrow> pubkey \<times> rpc_client \<times> u64 \<Rightarrow> bool" where
  "closest_spec now stale xs start best \<longleftrightarrow>
     (let (_, _, m0) = start; (n, c, m) = best
      in (best = start \<and> (\<forall>(k, r) \<in> set xs. has_fresh_proximity now stale r \<longrightarrow> m0 \<le> proximity_micros r))
       \<or> (\<exists>r. (n, r) \<in> set xs \<and> has_fresh_proximity now stale r \<and> c = client r
              \<and> m = proximity_micros r \<and> m < m0
              \<and> (\<forall>(k, r') \<in> set xs. has_fresh_proximity now stale r' \<longrightarrow> m \<le> proximity_micros r')))"

lemma closest_spec_skip:
  assumes "closest_spec now stale rest (n0, c0, m0) best"
    and "has_fresh_proximity now stale r \<Longrightarrow> m0 \<le> proximity_micros r"
  shows "closest_spec now stale ((k, r) # rest) (n0, c0, m0) best"
proof (cases best)
  case (fields n c m)
  then show ?thesis
    using assms unfolding closest_spec_def Let_def by (auto simp: split_beta dest: less_imp_le)
qed

lemma closest_spec_take:
  assumes "closest_spec now stale rest (k, client r, proximity_micros r) best"
    and "has_fresh_proximity now stale r" and "proximity_micros r < m0"
  shows "closest_spec now stale ((k, r) # rest) (n0, c0, m0) best"
proof (cases best)
  case (fields n c m)
  then show ?thesis
    using assms unfolding closest_spec_def Let_def
    by (auto simp: split_beta intro: less_trans less_imp_le)
qed

lemma closest_scan_spec: "closest_spec now stale xs start (closest_scan now stale xs start)"
proof (induction now stale xs start rule: closest_scan.induct)
  case (2 now stale key r rest node_id c m)
  show ?case
    using 2 by (cases "has_fresh_proximity now stale r \<and> \<not> m \<le> proximity_micros r")
      (auto intro: closest_spec_skip closest_spec_take)
qed (simp add: closest_spec_def split: prod.splits)

lemma closest_node_frame [simp]:
  "inner (snd (closest_node now rt)) = inner rt"
  "static_er_identity (snd (closest_node now rt)) = static_er_identity rt"
  "wf_base rt \<Longrightarrow> wf_base (snd (closest_node now rt))"
  by (simp_all add: closest_node_def Let_def split_beta split: option.splits)


section \<open>Averaged ping times\<close>

text \<open>C32: While the weighted sum fits in 64 bits, the update stores the exact 85/15 moving average
  rounded down, the result lies between the old average and the new sample, and the failure count
  is reset.\<close>

theorem update_proximity_average:
  assumes "proximity_micros r \<noteq> u64_max"
    and "unat (proximity_micros r) * 85 + duration * 15 < 2 ^ 64"
  shows "unat (proximity_micros (update_proximity now duration r))
      = (unat (proximity_micros r) * 85 + duration * 15) div 100
    \<and> min (unat (proximity_micros r)) duration
      \<le> unat (proximity_micros (update_proximity now duration r))
    \<and> unat (proximity_micros (update_proximity now duration r))
      \<le> max (unat (proximity_micros r)) duration
    \<and> consecutive_ping_failures (update_proximity now duration r) = 0"
proof -
  let ?p = "proximity_micros r" and ?d = "word_of_nat duration :: u64"
  have p85: "unat (?p * 85) = unat ?p * 85" and d15: "unat (?d * 15) = duration * 15"
    using assms(2) by (simp_all add: unat_of_nat unat_word_ariths)
  have "unat (?p * 85 + ?d * 15) = unat ?p * 85 + duration * 15"
    using assms(2) by (simp add: unat_word_ariths(1) p85 d15)
  then have avg: "unat (proximity_micros (update_proximity now duration r))
      = (unat ?p * 85 + duration * 15) div 100"
    using assms(1) by (simp add: update_proximity_def Let_def unat_div)
  moreover have "min (unat ?p) duration \<le> (unat ?p * 85 + duration * 15) div 100"
    and "(unat ?p * 85 + duration * 15) div 100 \<le> max (unat ?p) duration"
    by linarith+
  ultimately show ?thesis
    by (simp add: update_proximity_def Let_def)
qed


theorem update_proximity_average_witness:
  "unat (proximity_micros (update_proximity 7 2000
      ((sample_upstream ''a'')\<lparr>proximity_micros := 1000\<rparr>))) = 1150"
  using update_proximity_average [of "(sample_upstream ''a'')\<lparr>proximity_micros := 1000\<rparr>" 2000 7]
  by (simp add: sample_upstream_def u64_max_def)

lemma unat_max_failures [simp]: "unat MAX_PROXIMITY_PING_FAILURES = 3"
  by (simp add: MAX_PROXIMITY_PING_FAILURES_def)

lemma max_failures_le_iff: "MAX_PROXIMITY_PING_FAILURES \<le> n \<longleftrightarrow> 3 \<le> unat n"
  by (simp add: word_le_nat_alt)

lemma failures_after_pings:
  "unat (consecutive_ping_failures ((register_ping_failure ^^ n) r))
     = min (unat (consecutive_ping_failures r) + n) 255"
proof (induction n)
  case 0
  have "unat (consecutive_ping_failures r) < 2 ^ 8"
    using unsigned_less [of "consecutive_ping_failures r"] by simp
  then show ?case by simp
next
  case (Suc n)
  then show ?case
    by (simp add: register_ping_failure_def Let_def unat_saturating_add)
qed

text \<open>From any record, three ping failures in a row make the node ineligible at every time, and one
  successful ping afterwards makes it eligible again with exactly the measured time as its
  proximity: the discarded average does not leak into the new one.\<close>

theorem ping_failures_exclude_and_recover:
  "\<not> has_fresh_proximity now stale ((register_ping_failure ^^ (3 + n)) r)
   \<and> (let r' = update_proximity t d ((register_ping_failure ^^ (3 + n)) r)
      in has_fresh_proximity t stale r' \<and> proximity_micros r' = word_of_nat d)"
proof -
  let ?r = "(register_ping_failure ^^ (3 + n)) r"
  have failures: "3 \<le> unat (consecutive_ping_failures ?r)"
    unfolding failures_after_pings by simp
  have "?r = register_ping_failure ((register_ping_failure ^^ (2 + n)) r)"
    by (simp add: numeral_3_eq_3 numeral_2_eq_2)
  then have "proximity_micros ?r = u64_max"
    using failures by (auto simp: register_ping_failure_def Let_def max_failures_le_iff split: if_splits)
  with failures show ?thesis
    by (simp add: has_fresh_proximity_def update_proximity_def max_failures_le_iff Let_def)
qed

text \<open>A node takes part in the choice when its proximity is fresh and has been measured.\<close>

definition eligible :: "nat \<Rightarrow> routing_table \<Rightarrow> upstream_record \<Rightarrow> bool" where
  "eligible now rt r \<longleftrightarrow> has_fresh_proximity now (proximity_stale_after rt) r \<and> proximity_micros r \<noteq> u64_max"

lemma closest_node_eligible:
  assumes "wf_base rt" and "static_er_identity rt = None"
  shows "\<exists>k c. fst (closest_node now rt) = Inr (SerdePubkey k, c) \<and>
    ((\<exists>r. (k, r) \<in> set (inner rt) \<and> c = client r \<and> eligible now rt r
          \<and> (\<forall>(k', r') \<in> set (inner rt). eligible now rt r' \<longrightarrow> proximity_micros r \<le> proximity_micros r'))
     \<or> (k = pubkey_default \<and> c \<in> client ` set (upstreams (base_chain_ups rt))
        \<and> (\<forall>(k', r') \<in> set (inner rt). \<not> eligible now rt r')))"
proof -
  let ?start = "(pubkey_default, client (fst (base_chain rt)), u64_max)"
  obtain k c m where scan:
    "closest_scan now (proximity_stale_after rt) (inner rt) ?start = (k, c, m)"
    by (metis prod_cases3)
  have res: "fst (closest_node now rt) = Inr (SerdePubkey k, c)"
    using assms(2) scan by (simp add: closest_node_def split_beta Let_def)
  have "client (fst (base_chain rt)) \<in> client ` set (upstreams (base_chain_ups rt))"
    using base_chain_mem [OF assms(1)] by blast
  with closest_scan_spec [of now "proximity_stale_after rt" "inner rt" ?start, unfolded scan]
  show ?thesis
    unfolding closest_spec_def Let_def eligible_def by (intro exI [of _ k] exI [of _ c] conjI res) auto
qed

text \<open>C14: With a pinned identity, \<open>closest_node\<close> answers with that node, or with an error if it has no
  route.  Otherwise it answers with a node of minimal proximity among those whose proximity is fresh
  and measured; if there is none, it answers with the default key and a base chain endpoint.\<close>

theorem closest_node_minimal:
  assumes "wf_base rt"
  shows "case static_er_identity rt of
      Some i \<Rightarrow> fst (closest_node now rt)
                  = map_sum id (Pair (SerdePubkey i)) (ok_or (ephemeral_client i rt) (UnknownErNode i))
    | None \<Rightarrow>
        (\<exists>k c. fst (closest_node now rt) = Inr (SerdePubkey k, c) \<and>
          ((\<exists>r. (k, r) \<in> set (inner rt) \<and> c = client r \<and> eligible now rt r
                \<and> (\<forall>(k', r') \<in> set (inner rt).
                      eligible now rt r' \<longrightarrow> proximity_micros r \<le> proximity_micros r'))
           \<or> (k = pubkey_default \<and> c \<in> client ` set (upstreams (base_chain_ups rt))
              \<and> (\<forall>(k', r') \<in> set (inner rt). \<not> eligible now rt r'))))"
proof (cases "static_er_identity rt")
  case (Some i)
  then show ?thesis
    by (simp add: closest_node_def ephemeral_client_def split: option.splits)
qed (use closest_node_eligible [OF assms] in simp)

definition sample_node :: "string \<Rightarrow> u64 \<Rightarrow> upstream_record" where
  "sample_node u p =
     \<lparr>client = metrics_client u ''er'', ws_url = u, proximity_micros = p,
      last_proximity_update = Some 100, consecutive_ping_failures = 0, info = None\<rparr>"

definition sample_er_table :: routing_table where
  "sample_er_table =
     sample_table\<lparr>inner := [(Pubkey [1], sample_node ''er1'' 900), (Pubkey [2], sample_node ''er2'' 700)]\<rparr>"

theorem closest_node_minimal_witness:
  "fst (closest_node 200 sample_er_table) = Inr (SerdePubkey (Pubkey [2]), metrics_client ''er2'' ''er'')"
proof -
  have "wf_base sample_er_table" "static_er_identity sample_er_table = None"
    by (simp_all add: sample_er_table_def sample_table_def wf_base_def)
  from closest_node_minimal [OF this(1), of 200] this(2) show ?thesis
    by (auto simp: eligible_def sample_er_table_def sample_table_def sample_node_def has_fresh_proximity_def
        MAX_PROXIMITY_PING_FAILURES_def u64_max_def word_le_nat_alt)
qed


section \<open>Well-formed tables\<close>

text \<open>
  A usable proximity is backed by fewer than three failures and a timestamp; the index of the round
  robin is in range; keys are unique.
\<close>

definition healthy :: "upstream_record \<Rightarrow> bool" where
  "healthy r \<longleftrightarrow> proximity_micros r = u64_max
     \<or> (unat (consecutive_ping_failures r) < 3 \<and> last_proximity_update r \<noteq> None)"

definition wf_table :: "routing_table \<Rightarrow> bool" where
  "wf_table rt \<longleftrightarrow> wf_base rt \<and> distinct (map fst (inner rt)) \<and> distinct (map fst (pda_to_identity rt))
     \<and> (\<forall>k r. map_of (inner rt) k = Some r \<longrightarrow> healthy r)"

lemma healthy_update [simp]: "healthy (update_proximity now d r)"
  by (simp add: healthy_def update_proximity_def Let_def)

lemma healthy_failure [simp]: "healthy r \<Longrightarrow> healthy (register_ping_failure r)"
  by (auto simp: healthy_def register_ping_failure_def Let_def max_failures_le_iff)

lemma healthy_new: "new_from_url E u i = Some r \<Longrightarrow> healthy r"
  by (auto simp: healthy_def new_from_url_def Let_def split: if_splits option.splits)

lemma healthy_new_er: "new_from_er_record E e = Some r \<Longrightarrow> healthy r"
  by (auto simp: new_from_er_record_def healthy_new split: option.splits)

lemma healthy_inherit:
  "\<lbrakk>healthy u; \<And>c. cur = Some c \<Longrightarrow> healthy c\<rbrakk> \<Longrightarrow> healthy (inherit_proximity cur u)"
  by (auto simp: inherit_proximity_def healthy_def split: option.splits)

lemma map_of_map_values:
  "map_of (map (\<lambda>(k, r). (k, if k = key then f r else r)) xs) j
     = map_option (if j = key then f else id) (map_of xs j)"
  by (induction xs) auto

lemma map_of_filter_key:
  "map_of (filter (\<lambda>(k, _). k \<noteq> key) xs) j = (if j = key then None else map_of xs j)"
  by (induction xs) auto

lemma distinct_filter_key: "distinct (map fst xs) \<Longrightarrow> distinct (map fst (filter P xs))"
  by (simp add: distinct_map_filter)

lemma wf_base_cong:
  "base_chain_ups rt' = base_chain_ups rt \<Longrightarrow> wf_base rt' \<longleftrightarrow> wf_base rt"
  by (simp add: wf_base_def)

lemma wf_table_modify:
  assumes "wf_table rt" and "\<And>r. healthy r \<Longrightarrow> healthy (f r)"
  shows "wf_table (modify_entry key f rt)"
proof -
  have "map fst (inner (modify_entry key f rt)) = map fst (inner rt)"
    by (simp add: modify_entry_def split_beta)
  moreover have "healthy r" if "map_of (inner (modify_entry key f rt)) k = Some r" for k r
    using that assms by (auto simp: wf_table_def modify_entry_def map_of_map_values split: if_splits)
  moreover have "wf_base (modify_entry key f rt)"
    "pda_to_identity (modify_entry key f rt) = pda_to_identity rt"
    using assms(1) by (simp_all add: wf_table_def wf_base_def modify_entry_def)
  ultimately show ?thesis
    using assms(1) by (simp only: wf_table_def) blast
qed

lemma wf_table_remove: "wf_table rt \<Longrightarrow> wf_table (remove_entry pda rt)"
  by (auto simp: wf_table_def wf_base_def remove_entry_def send_state_def Let_def
      map_of_filter_key distinct_filter_key split: option.splits if_splits)

lemma wf_table_base_chain: "wf_table rt \<Longrightarrow> wf_table (snd (base_chain rt))"
  by (simp add: wf_table_def)

lemma wf_table_insert:
  assumes "scc_insert (insert_route E)" and "scc_insert (insert_pda E)" and wf: "wf_table rt"
  shows "wf_table (insert_entry E key acct rt)"
proof (cases "decode_er_record E (account_data acct)")
  case None
  with wf show ?thesis by (simp add: insert_entry_def wf_table_remove)
next
  case (Some e)
  show ?thesis
  proof (cases "new_from_er_record E e")
    case None
    with Some wf show ?thesis by (simp add: insert_entry_def)
  next
    case fresh: (Some u)
    let ?u = "inherit_proximity (map_of (inner rt) (er_identity e)) u"
    have "healthy ?u"
      using wf healthy_new_er [OF fresh] by (auto simp: wf_table_def intro: healthy_inherit)
    then have "\<forall>k r. map_of (insert_route E (er_identity e) ?u (inner rt)) k = Some r \<longrightarrow> healthy r"
      using wf by (auto simp: scc_insert.ins_lookup [OF assms(1)] wf_table_def split: if_splits)
    with Some fresh wf show ?thesis
      by (simp add: insert_entry_def send_state_def Let_def wf_table_def wf_base_def
          scc_insert.ins_keeps_distinct [OF assms(1)] scc_insert.ins_keeps_distinct [OF assms(2)])
  qed
qed

text \<open>C21: Every iteration of the updater loop, on any event, keeps the table well formed: the round robin
  stays in range, keys stay unique, and a usable proximity always comes with fewer than three
  consecutive failures and a timestamp.\<close>

theorem updater_keeps_wf:
  assumes "\<And>E e. (E, e) \<in> set events \<Longrightarrow>
      scc_insert (insert_route (routes_env E)) \<and> scc_insert (insert_pda (routes_env E))"
    and "wf_table (up_table s)"
  shows "wf_table (up_table (updater events s))"
  unfolding updater_def
proof (rule fold_invariant [where P = "\<lambda>s. wf_table (up_table s)"])
  fix x and s :: updater_state
  assume x: "x \<in> set events" and wf: "wf_table (up_table s)"
  obtain E ev where ev: "x = (E, ev)" by fastforce
  have laws: "scc_insert (insert_route (routes_env E))" "scc_insert (insert_pda (routes_env E))"
    using assms(1) [of E ev] x ev by simp_all
  have sent: "wf_table (send_subscription sub rt) \<longleftrightarrow> wf_table rt" for sub rt
    by (simp add: send_subscription_def wf_table_def wf_base_def)
  show "wf_table (up_table ((\<lambda>(E, e). updater_step E e) x s))"
    using wf ev by (cases "(E, ev, s)" rule: updater_step.cases)
      (auto simp: split_beta Let_def sent wf_table_base_chain wf_table_modify
         wf_table_insert [OF laws] split: option.splits)
qed (rule assms(2))


definition sample_env :: route_env where
  "sample_env =
     \<lparr>parse_url = Some, url_scheme = (\<lambda>_. ''https''),
      url_set_scheme = (\<lambda>u s. Some (s @ u)), probe_identity = (\<lambda>_. True),
      decode_er_record = (\<lambda>d. case d of
          [i, a] \<Rightarrow> Some \<lparr>er_identity = Pubkey [i], er_addr = (if a = 0 then ''old'' else ''new''),
                          er_base_fee = 5, er_block_time_ms = 50, er_country_code = ''US'',
                          er_status_active = True\<rparr>
        | _ \<Rightarrow> None),
      insert_route = append_if_absent, insert_pda = append_if_absent\<rparr>"

definition sample_updater_env :: updater_env where
  "sample_updater_env =
     \<lparr>routes_env = sample_env, parse_pubkey = (\<lambda>s. Some (Pubkey (replicate 32 7))),
      decode_ui_account = (\<lambda>_. Some \<lparr>account_lamports = 1, account_data = [9, 0]\<rparr>)\<rparr>"

definition sample_updater :: updater_state where
  "sample_updater = fst (updater_start (\<lambda>_. ''mdp'') (Pubkey [3]) 0 counter_init sample_er_table)"

definition sample_note :: updater_event where
  "sample_note = UMessage (Notification (RequestId 1) Chain
     (JObject [(''value'', JObject [(''pubkey'', JString ''k''), (''account'', JNull)])]))"

theorem updater_keeps_wf_witness:
  "wf_table (up_table (updater
     [(sample_updater_env, sample_note), (sample_updater_env, UTick),
      (sample_updater_env, UPingErr (Pubkey [9])), (sample_updater_env, UPingOk 300 (Pubkey [9]) 42)]
     sample_updater))"
proof (rule updater_keeps_wf)
  show "wf_table (up_table sample_updater)"
    by (simp add: sample_updater_def updater_start_def generate_def split_beta Let_def
        send_subscription_def wf_table_def wf_base_def sample_er_table_def sample_table_def
        sample_node_def healthy_def)
qed (auto simp: sample_updater_env_def sample_env_def alist_map.scc_insert_axioms)


section \<open>What an account notification does to the table\<close>

text \<open>A registry account of an identity the table does not know becomes a route: the identity
  resolves to the new client, every other identity resolves as before, the mapping from the
  account to the identity is recorded if the account was unknown, and the dispatcher is told the
  upstream's state.\<close>

theorem insert_entry_new_identity:
  assumes "scc_insert (insert_route E)" and "scc_insert (insert_pda E)"
    and "decode_er_record E (account_data acct) = Some e"
    and "new_from_er_record E e = Some u"
    and "map_of (inner rt) (er_identity e) = None"
  shows "map_of (inner (insert_entry E key acct rt)) = (map_of (inner rt))(er_identity e \<mapsto> u)
    \<and> map_of (pda_to_identity (insert_entry E key acct rt)) key
        = (case map_of (pda_to_identity rt) key of None \<Rightarrow> Some (er_identity e) | Some i \<Rightarrow> Some i)
    \<and> upstream_state_tx (insert_entry E key acct rt) = upstream_state_tx rt
        @ [\<lparr>is_online = er_status_active e, state_url = ws_url u, state_target = Ephem\<rparr>]"
  using assms
  by (auto simp: insert_entry_def inherit_proximity_def send_state_def Let_def
      scc_insert.ins_lookup [OF assms(2)] scc_insert.ins_fresh [OF assms(1)] split: option.splits)

theorem insert_entry_new_identity_witness:
  "ephemeral_client (Pubkey [9])
     (insert_entry sample_env (Pubkey [4]) \<lparr>account_lamports = 1, account_data = [9, 0]\<rparr> sample_er_table)
   = Some (metrics_client ''old'' ''er'')"
proof -
  let ?acct = "\<lparr>account_lamports = 1, account_data = [9, 0]\<rparr> :: account"
  let ?e = "\<lparr>er_identity = Pubkey [9], er_addr = ''old'', er_base_fee = 5, er_block_time_ms = 50,
     er_country_code = ''US'', er_status_active = True\<rparr> :: er_record"
  have "decode_er_record sample_env (account_data ?acct) = Some ?e"
    "new_from_er_record sample_env ?e
       = Some \<lparr>client = metrics_client ''old'' ''er'', ws_url = ''wssold'', proximity_micros = u64_max,
               last_proximity_update = None, consecutive_ping_failures = 0,
               info = Some (route_info_from ?e)\<rparr>"
    "map_of (inner sample_er_table) (er_identity ?e) = None"
    "scc_insert (insert_route sample_env)" "scc_insert (insert_pda sample_env)"
    by (simp_all add: sample_env_def sample_er_table_def new_from_er_record_def new_from_url_def
        alist_map.scc_insert_axioms)
  from insert_entry_new_identity [OF this(4,5,1,2,3), of "Pubkey [4]"] show ?thesis
    by (simp add: ephemeral_client_def)
qed

text \<open>The account a registry notification carries, whether it reports the account as closed, and the
  upstream state that entering it announces to the dispatcher.\<close>

definition notified_account :: "updater_env \<Rightarrow> updater_event \<Rightarrow> account option" where
  "notified_account E ev =
     (case ev of
        UMessage (Notification rid up payload) \<Rightarrow>
          (case Option.bind (deserialize_field json_as_str payload [''value'', ''pubkey'']) (parse_pubkey E) of
             None \<Rightarrow> None
           | Some key \<Rightarrow> deserialize_account Some (decode_ui_account E) payload [''value'', ''account''])
      | _ \<Rightarrow> None)"

definition reports_closed :: "updater_env \<Rightarrow> updater_event \<Rightarrow> bool" where
  "reports_closed E ev =
     (case notified_account E ev of
        None \<Rightarrow> False
      | Some acct \<Rightarrow>
          decode_er_record (routes_env E) (account_data acct) = None \<and> account_lamports acct = 0)"

definition announces :: "updater_env \<Rightarrow> updater_event \<Rightarrow> ws_upstream_state list" where
  "announces E ev =
     (case Option.bind (notified_account E ev) (\<lambda>acct. decode_er_record (routes_env E) (account_data acct)) of
        None \<Rightarrow> []
      | Some r \<Rightarrow>
          (case new_from_er_record (routes_env E) r of
             None \<Rightarrow> []
           | Some u \<Rightarrow> [\<lparr>is_online = er_status_active r, state_url = ws_url u, state_target = Ephem\<rparr>]))"

lemma ws_url_inherit [simp]: "ws_url (inherit_proximity cur u) = ws_url u"
  by (simp add: inherit_proximity_def split: option.splits)

lemma handle_modify:
  assumes "\<And>r. client (f r) = client r \<and> ws_url (f r) = ws_url r"
  shows "ephemeral_handle i (modify_entry key f rt) = ephemeral_handle i rt"
  using assms by (cases "map_of (inner rt) i")
    (auto simp: ephemeral_handle_def modify_entry_def map_of_map_values)

lemma proximity_keeps_address:
  "client (update_proximity now d r) = client r" "ws_url (update_proximity now d r) = ws_url r"
  "client (register_ping_failure r) = client r" "ws_url (register_ping_failure r) = ws_url r"
  by (simp_all add: update_proximity_def register_ping_failure_def Let_def)

lemma insert_entry_keeps_handle:
  assumes "scc_insert (insert_route E)" and "ephemeral_handle i rt = Some h"
    and "\<not> (decode_er_record E (account_data acct) = None \<and> account_lamports acct = 0)"
  shows "ephemeral_handle i (insert_entry E key acct rt) = Some h"
proof -
  obtain u where "map_of (inner rt) i = Some u"
    using assms(2) by (auto simp: ephemeral_handle_def)
  then have "map_of (insert_route E k v (inner rt)) i = Some u" for k v
    using scc_insert.ins_lookup [OF assms(1)] by auto
  with assms(2,3) \<open>map_of (inner rt) i = Some u\<close> show ?thesis
    by (auto simp: insert_entry_def send_state_def Let_def ephemeral_handle_def split: option.splits)
qed

lemma updater_step_address:
  assumes "scc_insert (insert_route (routes_env E))" and "\<not> reports_closed E ev"
  shows "ephemeral_handle i (up_table s) = Some h \<Longrightarrow> ephemeral_handle i (up_table (updater_step E ev s)) = Some h"
    and "upstream_state_tx (up_table (updater_step E ev s)) = upstream_state_tx (up_table s) @ announces E ev"
proof -
  have plain: "ephemeral_handle i (send_subscription sub (snd (base_chain rt))) = ephemeral_handle i rt" for sub rt
    by (simp add: send_subscription_def ephemeral_handle_def)
  have moved: "upstream_state_tx (modify_entry key f rt) = upstream_state_tx rt"
    "upstream_state_tx (send_subscription sub rt) = upstream_state_tx rt" for key f sub rt
    by (simp_all add: modify_entry_def send_subscription_def)
  show "ephemeral_handle i (up_table s) = Some h \<Longrightarrow> ephemeral_handle i (up_table (updater_step E ev s)) = Some h"
    using assms by (cases "(E, ev, s)" rule: updater_step.cases)
      (auto simp: plain split_beta Let_def handle_modify proximity_keeps_address reports_closed_def
        notified_account_def split: option.splits intro: insert_entry_keeps_handle)
  show "upstream_state_tx (up_table (updater_step E ev s)) = upstream_state_tx (up_table s) @ announces E ev"
    using assms(2) by (cases "(E, ev, s)" rule: updater_step.cases)
      (auto simp: moved split_beta Let_def reports_closed_def announces_def notified_account_def
        insert_entry_def send_state_def split: option.splits)
qed

text \<open>C35: A node that moves is not followed.  Whatever sequence of registry notifications, pings, ticks and
  disconnections the updater handles, as long as no registry account is reported as closed, every
  identity that had a route keeps its client and websocket address, although the address of every
  registry account that arrives in the meantime is announced to the dispatcher.\<close>

theorem known_route_never_moves:
  assumes "\<And>E e. (E, e) \<in> set events \<Longrightarrow> scc_insert (insert_route (routes_env E)) \<and> \<not> reports_closed E e"
    and "ephemeral_handle i (up_table s) = Some h"
  shows "ephemeral_handle i (up_table (updater events s)) = Some h
    \<and> upstream_state_tx (up_table (updater events s))
        = upstream_state_tx (up_table s) @ concat (map (\<lambda>(E, e). announces E e) events)"
  using assms
proof (induction events arbitrary: s)
  case (Cons x events)
  obtain E e where x: "x = (E, e)" by fastforce
  have law: "scc_insert (insert_route (routes_env E))" "\<not> reports_closed E e"
    using Cons.prems(1) [of E e] x by simp_all
  note step = updater_step_address [OF law]
  have rest: "ephemeral_handle i (up_table (updater events (updater_step E e s))) = Some h
      \<and> upstream_state_tx (up_table (updater events (updater_step E e s)))
        = upstream_state_tx (up_table (updater_step E e s)) @ concat (map (\<lambda>(E, e). announces E e) events)"
    by (rule Cons.IH) (use Cons.prems step(1) in auto)
  then show ?case by (simp add: updater_def x step(2))
qed (simp add: updater_def)

definition moving_env :: updater_env where
  "moving_env = sample_updater_env\<lparr>decode_ui_account :=
     (\<lambda>_. Some \<lparr>account_lamports = 1, account_data = [9, 1]\<rparr>)\<rparr>"

lemma sample_note_fields:
  "notified_account sample_updater_env sample_note = Some \<lparr>account_lamports = 1, account_data = [9, 0]\<rparr>"
  "notified_account moving_env sample_note = Some \<lparr>account_lamports = 1, account_data = [9, 1]\<rparr>"
  by (simp_all add: sample_note_def notified_account_def sample_updater_env_def moving_env_def
      deserialize_field_def deserialize_account_def)

theorem known_route_never_moves_witness:
  "let s = updater [(sample_updater_env, sample_note)] sample_updater;
       s' = updater [(moving_env, sample_note)] s
   in ephemeral_handle (Pubkey [9]) (up_table s')
        = Some \<lparr>handle_rpc = metrics_client ''old'' ''er'', handle_ws = ''wssold''\<rparr>
      \<and> state_url (last (upstream_state_tx (up_table s'))) = ''wssnew''"
proof -
  define s where "s = updater [(sample_updater_env, sample_note)] sample_updater"
  have h: "ephemeral_handle (Pubkey [9]) (up_table s)
      = Some \<lparr>handle_rpc = metrics_client ''old'' ''er'', handle_ws = ''wssold''\<rparr>"
    by (simp add: s_def updater_def sample_note_def sample_updater_env_def deserialize_field_def
        deserialize_account_def sample_updater_def updater_start_def generate_def Let_def split_beta
        insert_entry_def sample_env_def new_from_er_record_def new_from_url_def inherit_proximity_def
        send_state_def append_if_absent_def ephemeral_handle_def sample_er_table_def sample_table_def
        send_subscription_def base_chain_def)
  have ann: "announces moving_env sample_note = [\<lparr>is_online = True, state_url = ''wssnew'', state_target = Ephem\<rparr>]"
    and law: "\<not> reports_closed moving_env sample_note" "scc_insert (insert_route (routes_env moving_env))"
    unfolding announces_def reports_closed_def sample_note_fields
    by (simp_all add: moving_env_def sample_updater_env_def sample_env_def new_from_er_record_def
        new_from_url_def Let_def alist_map.scc_insert_axioms)
  from known_route_never_moves [of "[(moving_env, sample_note)]", OF _ h] law ann
  show ?thesis unfolding s_def [symmetric] Let_def by simp
qed


text \<open>When the registry account of a known route is closed (no data to decode and no lamports left),
  its identity stops resolving, every other identity resolves as before, and the dispatcher is told
  that the upstream went offline.\<close>

theorem closed_account_removes_route:
  assumes "decode_er_record E (account_data acct) = None" and "account_lamports acct = 0"
    and "map_of (pda_to_identity rt) key = Some identity"
    and "map_of (inner rt) identity = Some u"
  shows "map_of (inner (insert_entry E key acct rt)) = (map_of (inner rt))(identity := None)
    \<and> map_of (pda_to_identity (insert_entry E key acct rt)) = (map_of (pda_to_identity rt))(key := None)
    \<and> upstream_state_tx (insert_entry E key acct rt) = upstream_state_tx rt
        @ [\<lparr>is_online = False, state_url = ws_url u, state_target = Ephem\<rparr>]"
  using assms
  by (simp add: insert_entry_def remove_entry_def send_state_def Let_def fun_eq_iff map_of_filter_key)

theorem closed_account_removes_route_witness:
  "ephemeral_client (Pubkey [2]) (insert_entry sample_env (Pubkey [5])
      \<lparr>account_lamports = 0, account_data = []\<rparr>
      (sample_er_table\<lparr>pda_to_identity := [(Pubkey [5], Pubkey [2])]\<rparr>)) = None"
proof -
  let ?rt = "sample_er_table\<lparr>pda_to_identity := [(Pubkey [5], Pubkey [2])]\<rparr>"
  have "decode_er_record sample_env (account_data \<lparr>account_lamports = 0, account_data = []\<rparr>) = None"
    "account_lamports \<lparr>account_lamports = 0, account_data = []\<rparr> = 0"
    "map_of (pda_to_identity ?rt) (Pubkey [5]) = Some (Pubkey [2])"
    "map_of (inner ?rt) (Pubkey [2]) = Some (sample_node ''er2'' 700)"
    by (simp_all add: sample_env_def sample_er_table_def)
  from closed_account_removes_route [OF this] show ?thesis
    by (simp add: ephemeral_client_def)
qed


section \<open>The constructor\<close>

lemma new_upstreams_length: "new_upstreams E urls = Some ups \<Longrightarrow> length ups = length urls"
  by (induction urls arbitrary: ups) (auto split: option.splits)

lemma wf_table_fold_insert:
  assumes "scc_insert (insert_route E)" and "scc_insert (insert_pda E)" and "wf_table rt"
  shows "wf_table (fold (\<lambda>(key, acct). insert_entry E key acct) accounts rt)"
  using assms(3)
  by (rule fold_invariant [where P = wf_table]) (auto simp: wf_table_insert assms(1,2) split_beta)

lemma insert_entry_frame [simp]:
  "proximity_stale_after (insert_entry E key acct rt) = proximity_stale_after rt"
  "static_er_identity (insert_entry E key acct rt) = static_er_identity rt"
  "base_chain_ups (insert_entry E key acct rt) = base_chain_ups rt"
  "dispatcher_tx (insert_entry E key acct rt) = dispatcher_tx rt"
  by (simp_all add: insert_entry_def remove_entry_def send_state_def Let_def split: option.splits)

lemma fold_insert_stale_after [simp]:
  "proximity_stale_after (fold (\<lambda>(key, acct). insert_entry E key acct) accounts rt)
     = proximity_stale_after rt"
  by (induction accounts arbitrary: rt) (auto simp: split_beta)

lemma insert_entry_states:
  "\<exists>sts. upstream_state_tx (insert_entry E key acct rt) = upstream_state_tx rt @ sts"
  by (simp add: insert_entry_def remove_entry_def send_state_def Let_def split: option.splits)

lemma fold_insert_states:
  "\<exists>sts. upstream_state_tx (fold (\<lambda>(key, acct). insert_entry E key acct) accounts rt)
     = upstream_state_tx rt @ sts"
proof (induction accounts arbitrary: rt)
  case (Cons x accounts)
  show ?case
    using Cons [of "insert_entry E (fst x) (snd x) rt"] insert_entry_states [of E "fst x" "snd x" rt]
    by (auto simp: split_beta)
qed simp

text \<open>What a successful construction did: the endpoints became upstreams that were announced as online,
  and the registry accounts were entered one after the other.\<close>

definition fresh_table :: "upstream_record list \<Rightarrow> u64 \<Rightarrow> pubkey option \<Rightarrow> routing_table" where
  "fresh_table ups freq static_id =
     \<lparr>inner = [], pda_to_identity = [], base_chain_ups = \<lparr>upstreams = ups, next_index = 0\<rparr>,
      dispatcher_tx = [], upstream_state_tx = map chain_online ups,
      proximity_stale_after = unat (saturating_mul freq STALE_PROXIMITY_MULTIPLIER) * 1000000,
      static_er_identity = static_id\<rparr>"

lemma routing_table_new_steps:
  assumes "routing_table_new E accounts_of urls freq static_id = Some (Inr rt)"
  obtains ups accounts where "length ups = length urls" and "ups \<noteq> []"
    and "rt = fold (\<lambda>(key, acct). insert_entry E key acct) accounts
           (snd (base_chain (fresh_table ups freq static_id)))"
    and "\<And>i. static_id = Some i \<Longrightarrow> map_of (inner rt) i \<noteq> None"
proof -
  from assms obtain ups where ups: "new_upstreams E urls = Some ups" "ups \<noteq> []"
    by (auto simp: routing_table_new_def split: option.splits if_splits)
  from assms ups obtain accounts where
    "rt = fold (\<lambda>(key, acct). insert_entry E key acct) accounts
           (snd (base_chain (fresh_table ups freq static_id)))"
    and "\<And>i. static_id = Some i \<Longrightarrow> map_of (inner rt) i \<noteq> None"
    by (auto simp: routing_table_new_def fresh_table_def Let_def split_beta
        split: option.splits sum.splits if_splits)
  then show thesis by (rule that [OF new_upstreams_length [OF ups(1)] ups(2)])
qed

lemma routing_table_new_facts:
  assumes "scc_insert (insert_route E)" and "scc_insert (insert_pda E)"
    and "routing_table_new E accounts_of urls freq static_id = Some (Inr rt)"
  shows "urls \<noteq> []" and "wf_table rt"
    and "static_id \<noteq> None \<Longrightarrow> ephemeral_client (the static_id) rt \<noteq> None"
    and "proximity_stale_after rt = min (unat freq * 3) (2 ^ 64 - 1) * 1000000"
proof -
  obtain ups accounts where ups: "length ups = length urls" "ups \<noteq> []"
    and rt: "rt = fold (\<lambda>(key, acct). insert_entry E key acct) accounts
           (snd (base_chain (fresh_table ups freq static_id)))"
    and pinned: "\<And>i. static_id = Some i \<Longrightarrow> map_of (inner rt) i \<noteq> None"
    using routing_table_new_steps [OF assms(3)] by metis
  show "urls \<noteq> []" using ups by auto
  have "wf_table (fresh_table ups freq static_id)"
    using ups(2) by (simp add: fresh_table_def wf_table_def wf_base_def)
  then show "wf_table rt"
    unfolding rt by (intro wf_table_fold_insert assms(1,2) wf_table_base_chain)
  show "static_id \<noteq> None \<Longrightarrow> ephemeral_client (the static_id) rt \<noteq> None"
    using pinned by (auto simp: ephemeral_client_def)
  show "proximity_stale_after rt = min (unat freq * 3) (2 ^ 64 - 1) * 1000000"
    by (simp add: rt fresh_table_def STALE_PROXIMITY_MULTIPLIER_def unat_saturating_mul)
qed

lemma routing_table_new_announces:
  assumes "routing_table_new E accounts_of urls freq static_id = Some (Inr rt)"
  obtains st sts where "upstream_state_tx rt = st # sts" and "is_online st"
proof -
  obtain ups accounts where ups: "ups \<noteq> []"
    and rt: "rt = fold (\<lambda>(key, acct). insert_entry E key acct) accounts
           (snd (base_chain (fresh_table ups freq static_id)))"
    using routing_table_new_steps [OF assms] by metis
  have start: "upstream_state_tx (snd (base_chain (fresh_table ups freq static_id)))
      = chain_online (hd ups) # map chain_online (tl ups)"
    using ups by (cases ups) (simp_all add: fresh_table_def)
  obtain sts where "upstream_state_tx rt = (chain_online (hd ups) # map chain_online (tl ups)) @ sts"
    using fold_insert_states [of E accounts "snd (base_chain (fresh_table ups freq static_id))"] rt start
    by auto
  then show thesis by (intro that) (auto simp: chain_online_def)
qed

end
