(* ===== verification/Delegations.thy ===== *)
theory Delegations
  imports Accounts Routes Metrics
begin

text \<open>
  \<open>src/cache/delegations.rs\<close>: the cache of delegation records.  This theory holds its state, its atomic
  operations on the backing map, the fetch with retries, the stream updater and \<open>get_record\<close> as one
  task runs it without interference.  The interleaving of many tasks is the theory
  \<open>Delegation_Tasks\<close>, which uses the same operations.

  The backing \<open>scc::HashCache\<close> is represented by its contents; which entry it evicts is the argument
  \<open>evict\<close>.  The other arguments (\<open>deleg_env\<close>) are the address derivation, the answers of the sync
  service to \<open>subscribe\<close>, the answers of the RPC endpoint per attempt and what an awaited fill yields.
\<close>

section \<open>State\<close>

definition CHANNEL_CAPACITY :: nat where "CHANNEL_CAPACITY = 1024"
definition MAX_ACCOUNT_REFETCH_ATTEMPTS :: nat where "MAX_ACCOUNT_REFETCH_ATTEMPTS = 3"
definition RETRY_BACKOFF_SECONDS :: nat where "RETRY_BACKOFF_SECONDS = 2"
definition MIN_CONTEXT_SLOT_ROLLBACK :: u64 where "MIN_CONTEXT_SLOT_ROLLBACK = 8"

datatype sync_request = SyncSubscribe pubkey | SyncUnsubscribe pubkey

text \<open>\<open>routes\<close> is the shared routing table behind the \<open>Arc\<close>; \<open>syncer\<close> is the sequence of requests the
  sync service accepted; \<open>fill_table\<close> holds the channels of all fills; \<open>cache_metrics\<close> are the
  process-wide metrics.\<close>

record delegations_cache =
  db :: "pubkey \<rightharpoonup> delegation_entry"
  db_capacity :: "nat \<times> nat"
  fill_table :: fills
  syncer :: "sync_request list"
  routes :: routing_table
  cache_metrics :: metrics

type_synonym account_answer = "(string, u64 \<times> u8 list option option) result"

record deleg_env =
  find_program_address :: "u8 list list \<Rightarrow> pubkey \<Rightarrow> pubkey \<times> u8"
  delegation_program_id :: pubkey
  sync_subscribe :: "pubkey \<Rightarrow> u64 option"
  account_at :: "rpc_client \<Rightarrow> pubkey \<Rightarrow> u64 option \<Rightarrow> nat \<Rightarrow> account_answer"
  evict :: "pubkey \<Rightarrow> (pubkey \<rightharpoonup> delegation_entry) \<Rightarrow> pubkey option"
  await_fill :: "pending_fill \<Rightarrow> parsed_delegation_record option option"

definition delegations_new :: "routing_table \<Rightarrow> nat \<Rightarrow> metrics \<Rightarrow> delegations_cache" where
  "delegations_new rt max_cached_delegations M =
     (let min_capacity = min CHANNEL_CAPACITY max_cached_delegations
      in \<lparr>db = Map.empty, db_capacity = (min_capacity, max_cached_delegations),
          fill_table = fills_init, syncer = [], routes = rt, cache_metrics = M\<rparr>)"


section \<open>Operations on the backing map\<close>

definition remove_pending_fill ::
  "pubkey \<Rightarrow> pending_fill \<Rightarrow> delegations_cache \<Rightarrow> bool \<times> delegations_cache" where
  "remove_pending_fill pda f c =
     (case db c pda of
        Some e \<Rightarrow>
          if slot e = 0 \<and> holds_fill e f then (True, c\<lparr>db := (db c)(pda := None)\<rparr>) else (False, c)
      | None \<Rightarrow> (False, c))"

text \<open>\<open>VacantEntry::put_entry\<close>: stores the entry and reports the evicted key, if any.\<close>

definition put_entry ::
  "deleg_env \<Rightarrow> pubkey \<Rightarrow> delegation_entry \<Rightarrow> delegations_cache \<Rightarrow> pubkey option \<times> delegations_cache" where
  "put_entry E pda e c =
     (case evict E pda (db c) of
        None \<Rightarrow> (None, c\<lparr>db := (db c)(pda \<mapsto> e)\<rparr>)
      | Some v \<Rightarrow> (if v = pda \<or> db c v = None then None else Some v,
                   c\<lparr>db := (db c)(v := None, pda \<mapsto> e)\<rparr>))"

definition unsubscribe :: "pubkey \<Rightarrow> delegations_cache \<Rightarrow> delegations_cache" where
  "unsubscribe pda c = c\<lparr>syncer := syncer c @ [SyncUnsubscribe pda]\<rparr>"

definition insert_new :: "deleg_env \<Rightarrow> pubkey \<Rightarrow> delegation_entry \<Rightarrow> delegations_cache \<Rightarrow> delegations_cache" where
  "insert_new E pda e c =
     (case put_entry E pda e c of
        (None, c') \<Rightarrow> c'
      | (Some v, c') \<Rightarrow> unsubscribe v c')"

definition subscribe :: "deleg_env \<Rightarrow> pubkey \<Rightarrow> delegations_cache \<Rightarrow> u64 option \<times> delegations_cache" where
  "subscribe E pda c =
     (case sync_subscribe E pda of
        None \<Rightarrow> (None, c\<lparr>cache_metrics := metrics_error ''delegation'' (cache_metrics c)\<rparr>)
      | Some s \<Rightarrow> (Some s, c\<lparr>syncer := syncer c @ [SyncSubscribe pda]\<rparr>))"

definition placeholder :: "pending_fill \<Rightarrow> delegation_entry" where
  "placeholder f =
     \<lparr>slot = 0, delegation = None, pending_min_context_slot = None, pending = Some f\<rparr>"

definition fetched_entry :: "u64 \<Rightarrow> parsed_delegation_record option \<Rightarrow> delegation_entry" where
  "fetched_entry s r = \<lparr>slot = s, delegation = r, pending_min_context_slot = None, pending = None\<rparr>"

definition merge_fetched ::
  "pubkey \<Rightarrow> delegation_entry \<Rightarrow> pending_fill option \<Rightarrow> delegations_cache
    \<Rightarrow> parsed_delegation_record option \<times> delegations_cache" where
  "merge_fetched pda new fill c =
     (case db c pda of
        Some e \<Rightarrow>
          if (case pending e of
                None \<Rightarrow> False
              | Some p \<Rightarrow> (case fill of None \<Rightarrow> True | Some f \<Rightarrow> \<not> ptr_eq p f))
          then (delegation new, c)
          else if slot e < slot new
          then (delegation new, c\<lparr>db := (db c)(pda \<mapsto> new)\<rparr>)
          else (delegation e, c)
      | None \<Rightarrow> (delegation new, c))"

text \<open>The two guarded writes of the fill owner: the minimal context slot after subscribing, and the
  release of the fill after publishing.\<close>

definition claim_fill ::
  "pubkey \<Rightarrow> pending_fill \<Rightarrow> u64 option \<Rightarrow> delegations_cache \<Rightarrow> bool \<times> delegations_cache" where
  "claim_fill pda f min_slot c =
     (case db c pda of
        Some e \<Rightarrow>
          if slot e = 0 \<and> holds_fill e f
          then (True, c\<lparr>db := (db c)(pda \<mapsto> e\<lparr>pending_min_context_slot := min_slot\<rparr>)\<rparr>)
          else (False, c)
      | None \<Rightarrow> (False, c))"

definition release_fill :: "pubkey \<Rightarrow> pending_fill \<Rightarrow> delegations_cache \<Rightarrow> delegations_cache" where
  "release_fill pda f c =
     (case db c pda of
        Some e \<Rightarrow> if holds_fill e f then c\<lparr>db := (db c)(pda \<mapsto> e\<lparr>pending := None\<rparr>)\<rparr> else c
      | None \<Rightarrow> c)"


section \<open>Fetching with retries\<close>

text \<open>Runs the remaining attempts and adds up the seconds slept before them.  A returned account whose
  data does not decode or parse counts as an error and as undelegated.\<close>

fun fetch_attempts ::
  "(nat \<Rightarrow> account_answer) \<Rightarrow> nat list \<Rightarrow> metrics \<Rightarrow> nat \<Rightarrow> delegation_entry \<times> metrics \<times> nat" where
  "fetch_attempts answer [] M slept =
     (fetched_entry 0 None, metrics_error ''delegation'' M, slept)"
| "fetch_attempts answer (attempt # rest) M slept =
     (let slept' = (if 0 < attempt then slept + RETRY_BACKOFF_SECONDS * attempt else slept)
      in case answer attempt of
           Inr (s, Some data) \<Rightarrow>
             (let r = (case data of None \<Rightarrow> None | Some bytes \<Rightarrow> from_bytes bytes);
                  M' = (if r = None then metrics_error ''delegation'' M else M)
              in (fetched_entry s r, M', slept'))
         | Inr (s, None) \<Rightarrow> (fetched_entry s None, M, slept')
         | Inl _ \<Rightarrow> fetch_attempts answer rest M slept')"

definition fetch ::
  "deleg_env \<Rightarrow> pubkey \<Rightarrow> u64 option \<Rightarrow> delegations_cache \<Rightarrow> delegation_entry \<times> nat \<times> delegations_cache" where
  "fetch E pda min_context_slot c =
     (let (b, rt) = base_chain (routes c);
          (e, M, slept) = fetch_attempts (account_at E (client b) pda min_context_slot)
                            [0..<Suc MAX_ACCOUNT_REFETCH_ATTEMPTS] (cache_metrics c) 0
      in (e, slept, c\<lparr>routes := rt, cache_metrics := M\<rparr>))"


section \<open>The stream updater\<close>

datatype account_update =
    Delegated pubkey "u8 list" u64
  | Undelegated pubkey u64
  | SyncInterrupted
  | SyncTerminated

definition transition_label :: "pubkey option \<Rightarrow> pubkey option \<Rightarrow> string" where
  "transition_label old new =
     (case (old, new) of
        (None, _) \<Rightarrow> ''delegated''
      | (_, None) \<Rightarrow> ''undelegated''
      | _ \<Rightarrow> ''redelegated'')"

definition record_authority :: "parsed_delegation_record option \<Rightarrow> pubkey option" where
  "record_authority r = map_option (\<lambda>r. serde_pubkey_inner (authority r)) r"

definition update_cached_entry ::
  "pubkey \<Rightarrow> u64 \<Rightarrow> parsed_delegation_record option \<Rightarrow> delegations_cache \<Rightarrow> delegations_cache" where
  "update_cached_entry key s new c =
     (case db c key of
        None \<Rightarrow> c
      | Some e \<Rightarrow>
          if s \<le> slot e then c
          else
            (let old_auth = record_authority (delegation e);
                 new_auth = record_authority new;
                 M = (if old_auth \<noteq> new_auth \<and> slot e \<noteq> 0
                      then metrics_transition (transition_label old_auth new_auth) (cache_metrics c)
                      else cache_metrics c);
                 e' = e\<lparr>delegation := new, slot := s, pending_min_context_slot := None, pending := None\<rparr>;
                 F = (case pending e of None \<Rightarrow> fill_table c | Some f \<Rightarrow> notify_filled f (fill_table c))
             in c\<lparr>db := (db c)(key \<mapsto> e'), cache_metrics := M, fill_table := F\<rparr>))"

fun updater_msg :: "account_update \<Rightarrow> delegations_cache \<Rightarrow> delegations_cache" where
  "updater_msg (Delegated key data s) c =
     (let M = metrics_sync_event ''delegated_update'' (cache_metrics c);
          new = from_bytes data;
          M' = (if new = None then metrics_error ''delegation'' M else M)
      in update_cached_entry key s new (c\<lparr>cache_metrics := M'\<rparr>))"
| "updater_msg (Undelegated key s) c =
     update_cached_entry key s None
       (c\<lparr>cache_metrics := metrics_sync_event ''undelegated_update'' (cache_metrics c)\<rparr>)"
| "updater_msg SyncInterrupted c =
     c\<lparr>cache_metrics := metrics_sync_event ''interrupted'' (cache_metrics c), db := Map.empty\<rparr>"
| "updater_msg SyncTerminated c =
     c\<lparr>cache_metrics := metrics_sync_event ''terminated'' (cache_metrics c)\<rparr>"

definition deleg_updater :: "account_update list \<Rightarrow> delegations_cache \<Rightarrow> delegations_cache" where
  "deleg_updater msgs c = fold updater_msg msgs c"


section \<open>Reading a record\<close>

definition new_fill :: "delegations_cache \<Rightarrow> pending_fill \<times> delegations_cache" where
  "new_fill c = (let (f, F) = fill_new (fill_table c) in (f, c\<lparr>fill_table := F\<rparr>))"

definition send_fill ::
  "pending_fill \<Rightarrow> parsed_delegation_record option \<Rightarrow> delegations_cache \<Rightarrow> delegations_cache" where
  "send_fill f r c = c\<lparr>fill_table := fill_send f r (fill_table c)\<rparr>"

definition drop_fill :: "pending_fill \<Rightarrow> delegations_cache \<Rightarrow> delegations_cache" where
  "drop_fill f c = c\<lparr>fill_table := fill_drop f (fill_table c)\<rparr>"

text \<open>\<open>stream_fill\<close> answers at once when the entry has been filled, and otherwise waits.\<close>

definition stream_fill_ready ::
  "pubkey \<Rightarrow> delegations_cache \<Rightarrow> parsed_delegation_record option option" where
  "stream_fill_ready pda c =
     (case db c pda of
        None \<Rightarrow> None
      | Some e \<Rightarrow> if slot e \<noteq> 0 then Some (delegation e) else None)"

lemmas db_op_defs =
  remove_pending_fill_def put_entry_def unsubscribe_def insert_new_def subscribe_def
  new_fill_def send_fill_def drop_fill_def claim_fill_def release_fill_def merge_fetched_def
  placeholder_def fetched_entry_def

lemma db_insert_new [simp]: "db (insert_new E pda e c) pda = Some e"
  by (auto simp: insert_new_def put_entry_def unsubscribe_def split: option.splits)

lemma db_subscribe [simp]: "db (snd (subscribe E pda c)) = db c"
  by (simp add: subscribe_def split: option.splits)

lemma db_new_fill [simp]: "db (snd (new_fill c)) = db c"
  by (simp add: new_fill_def split_beta Let_def)

lemma db_fetch [simp]: "db (snd (snd (fetch E pda m c))) = db c"
  by (simp add: fetch_def split_beta Let_def)

lemma db_fill_ops [simp]:
  "db (send_fill f r c) = db c"
  "db (drop_fill f c) = db c"
  by (simp_all add: send_fill_def drop_fill_def)

definition waits_on_fill :: "pubkey \<Rightarrow> delegations_cache \<Rightarrow> bool" where
  "waits_on_fill pda c =
     (case db c pda of None \<Rightarrow> False | Some e \<Rightarrow> slot e = 0 \<and> pending e \<noteq> None)"

lemma claim_fill_placeholder:
  "db c pda = Some (placeholder f) \<Longrightarrow> fst (claim_fill pda f m c)"
  by (simp add: claim_fill_def placeholder_def)

lemma remove_fill_placeholder:
  "db c pda = Some (placeholder f) \<Longrightarrow> fst (remove_pending_fill pda f c)"
  by (simp add: remove_pending_fill_def placeholder_def)

lemma db_after_subscribe:
  "(s, c2) = subscribe E pda (insert_new E pda e c) \<Longrightarrow> db c2 pda = Some e"
  using db_subscribe [of E pda "insert_new E pda e c"] by (metis db_insert_new snd_conv)

text \<open>
  The loop of \<open>get_record\<close>.  Each recursive call is a \<open>continue\<close>.  In the \<open>select!\<close> the fetch wins
  unless the entry is already filled when the race starts.
\<close>

function get_record_loop ::
  "deleg_env \<Rightarrow> pubkey \<Rightarrow> delegations_cache \<Rightarrow> parsed_delegation_record option \<times> delegations_cache" where
  "get_record_loop E pda c =
     (case db c pda of
        Some e \<Rightarrow>
          if slot e \<noteq> 0 then (delegation e, c)
          else
            (case pending e of
               Some f \<Rightarrow>
                 (case await_fill E f of
                    Some r \<Rightarrow> (r, c)
                  | None \<Rightarrow> get_record_loop E pda (snd (remove_pending_fill pda f c)))
             | None \<Rightarrow>
                 (case fetch E pda (pending_min_context_slot e) c of
                    (new, _, c1) \<Rightarrow> merge_fetched pda new None c1))
      | None \<Rightarrow>
          (case new_fill c of
             (f, c1) \<Rightarrow>
               (case subscribe E pda (insert_new E pda (placeholder f) c1) of
                  (None, c2) \<Rightarrow>
                    (if fst (remove_pending_fill pda f c2)
                     then (case fetch E pda None (snd (remove_pending_fill pda f c2)) of
                             (new, _, c3) \<Rightarrow> (delegation new, send_fill f (delegation new) c3))
                     else get_record_loop E pda (drop_fill f (snd (remove_pending_fill pda f c2))))
                | (Some subscription_slot, c2) \<Rightarrow>
                    (let min_slot = checked_sub subscription_slot MIN_CONTEXT_SLOT_ROLLBACK
                     in if fst (claim_fill pda f min_slot c2)
                        then
                          (let c3 = snd (claim_fill pda f min_slot c2);
                               (r, c4) =
                                 (case stream_fill_ready pda c3 of
                                    Some r \<Rightarrow> (r, c3)
                                  | None \<Rightarrow>
                                      (case fetch E pda min_slot c3 of
                                         (new, _, c') \<Rightarrow> merge_fetched pda new (Some f) c'))
                           in (r, send_fill f r (release_fill pda f c4)))
                        else get_record_loop E pda (drop_fill f (snd (claim_fill pda f min_slot c2)))))))"
  by pat_completeness auto

termination
proof (relation "measure (\<lambda>(E, pda, c). if waits_on_fill pda c then 1 else 0)", goal_cases)
  case (2 E pda c f c1 s c2)
  then show ?case
    using db_after_subscribe remove_fill_placeholder by blast
next
  case (3 E pda c f c1 s c2 slot min_slot)
  then show ?case
    using db_after_subscribe claim_fill_placeholder by blast
next
  case (4 E pda c e f)
  then have "\<not> waits_on_fill pda (snd (remove_pending_fill pda f c))" "waits_on_fill pda c"
    by (simp_all add: waits_on_fill_def remove_pending_fill_def)
  then show ?case by simp
qed simp

declare get_record_loop.simps [simp del]

definition pda_for :: "deleg_env \<Rightarrow> pubkey \<Rightarrow> pubkey" where
  "pda_for E key =
     delegation_record_pda_from_delegated_account
       (find_program_address E) (delegation_program_id E) key"

definition get_record ::
  "deleg_env \<Rightarrow> pubkey \<Rightarrow> delegations_cache \<Rightarrow> parsed_delegation_record option \<times> delegations_cache" where
  "get_record E key c = get_record_loop E (pda_for E key) c"

definition get_delegation_authority ::
  "deleg_env \<Rightarrow> pubkey \<Rightarrow> delegations_cache \<Rightarrow> pubkey option \<times> delegations_cache" where
  "get_delegation_authority E key c =
     (case get_record E key c of (r, c') \<Rightarrow> (record_authority r, c'))"


section \<open>Well-formed entries and the contract of the writers\<close>

text \<open>
  Slot 0 marks an entry that has not been filled: it carries no record.  A filled entry has no pending
  fill and no minimal context slot.
\<close>

definition wf_entry :: "delegation_entry \<Rightarrow> bool" where
  "wf_entry e \<longleftrightarrow> (if slot e = 0 then delegation e = None
                   else pending e = None \<and> pending_min_context_slot e = None)"

definition wf_db :: "delegations_cache \<Rightarrow> bool" where
  "wf_db c \<longleftrightarrow> (\<forall>k e. db c k = Some e \<longrightarrow> wf_entry e)"

text \<open>Every operation that writes the backing map keeps entries well formed and never moves the slot of
  an entry backwards.\<close>

locale db_writer =
  fixes wr :: "delegations_cache \<Rightarrow> delegations_cache"
  assumes write_wf: "wf_db c \<Longrightarrow> wf_db (wr c)"
    and write_mono: "\<lbrakk>db c k = Some e; db (wr c) k = Some e'\<rbrakk> \<Longrightarrow> slot e \<le> slot e'"
begin

lemma write_keeps_filled:
  "\<lbrakk>db c k = Some e; slot e \<noteq> 0; db (wr c) k = Some e'\<rbrakk> \<Longrightarrow> slot e' \<noteq> 0"
  using write_mono [of c k e e'] by (auto simp: word_le_nat_alt unat_eq_0)

lemma write_no_pending_when_filled:
  "\<lbrakk>wf_db c; db c k = Some e; slot e \<noteq> 0; db (wr c) k = Some e'\<rbrakk> \<Longrightarrow> pending e' = None"
  using write_wf [of c] write_keeps_filled [of c k e e'] by (auto simp: wf_db_def wf_entry_def)

end

lemma wf_fetched [simp]: "slot e' < s \<Longrightarrow> wf_entry (fetched_entry s r)"
  by (auto simp: wf_entry_def fetched_entry_def)

interpretation update_writer: db_writer "update_cached_entry key s new"
proof
  show "wf_db (update_cached_entry key s new c)" if "wf_db c" for c
    using that
    by (auto simp: wf_db_def wf_entry_def update_cached_entry_def Let_def not_le
        split: option.splits if_splits)
  show "slot e \<le> slot e'" if "db c k = Some e" "db (update_cached_entry key s new c) k = Some e'"
    for c k e e'
    using that
    by (auto simp: update_cached_entry_def Let_def not_le split: option.splits if_splits)
qed

lemma update_cached_entry_metrics:
  "db (update_cached_entry key s new (c\<lparr>cache_metrics := M\<rparr>)) = db (update_cached_entry key s new c)"
  by (simp add: update_cached_entry_def Let_def split: option.splits)

lemma db_updater_msg:
  "db (updater_msg m c) =
     (case m of
        Delegated key data s \<Rightarrow> db (update_cached_entry key s (from_bytes data) c)
      | Undelegated key s \<Rightarrow> db (update_cached_entry key s None c)
      | SyncInterrupted \<Rightarrow> Map.empty
      | SyncTerminated \<Rightarrow> db c)"
  by (cases m) (simp_all add: Let_def update_cached_entry_metrics)

interpretation stream_writer: db_writer "updater_msg m"
proof
  show "wf_db (updater_msg m c)" if "wf_db c" for c
    using that update_writer.write_wf [of c]
    by (auto simp: wf_db_def db_updater_msg split: account_update.splits)
  show "slot e \<le> slot e'" if "db c k = Some e" "db (updater_msg m c) k = Some e'" for c k e e'
    using that update_writer.write_mono [of c k e]
    by (auto simp: db_updater_msg split: account_update.splits)
qed

interpretation merge_writer: db_writer "\<lambda>c. snd (merge_fetched pda (fetched_entry s r) fill c)"
proof
  show "wf_db (snd (merge_fetched pda (fetched_entry s r) fill c))" if "wf_db c" for c
    using that
    by (auto simp: wf_db_def merge_fetched_def wf_entry_def fetched_entry_def split: option.splits)
  show "slot e \<le> slot e'" if "db c k = Some e"
    "db (snd (merge_fetched pda (fetched_entry s r) fill c)) k = Some e'" for c k e e'
    using that by (auto simp: merge_fetched_def fetched_entry_def split: option.splits if_splits)
qed

interpretation remove_writer: db_writer "\<lambda>c. snd (remove_pending_fill pda f c)"
  by standard
    (auto simp: wf_db_def remove_pending_fill_def split: option.splits if_splits)

interpretation claim_writer: db_writer "\<lambda>c. snd (claim_fill pda f m c)"
  by standard
    (auto simp: wf_db_def wf_entry_def claim_fill_def split: option.splits if_splits)

interpretation release_writer: db_writer "release_fill pda f"
  by standard
    (auto simp: wf_db_def wf_entry_def release_fill_def split: option.splits if_splits, blast)

interpretation insert_writer:
  db_writer "\<lambda>c. if db c pda = None then snd (put_entry E pda (placeholder f) c) else c"
  by standard
    (auto simp: wf_db_def wf_entry_def put_entry_def placeholder_def split: option.splits if_splits)


section \<open>The updater refines a newest-slot register\<close>

definition cached_view :: "delegations_cache \<Rightarrow> pubkey \<Rightarrow> (u64 \<times> parsed_delegation_record option) option" where
  "cached_view c k = map_option (\<lambda>e. (slot e, delegation e)) (db c k)"

definition newer_wins :: "u64 \<times> 'r \<Rightarrow> u64 \<times> 'r \<Rightarrow> u64 \<times> 'r" where
  "newer_wins upd cur = (if fst cur < fst upd then upd else cur)"

fun register_step ::
  "pubkey \<Rightarrow> account_update \<Rightarrow> (u64 \<times> parsed_delegation_record option) option
    \<Rightarrow> (u64 \<times> parsed_delegation_record option) option" where
  "register_step k (Delegated key data s) v =
     (if key = k then map_option (newer_wins (s, from_bytes data)) v else v)"
| "register_step k (Undelegated key s) v =
     (if key = k then map_option (newer_wins (s, None)) v else v)"
| "register_step k SyncInterrupted v = None"
| "register_step k SyncTerminated v = v"

lemma view_update_cached_entry:
  "cached_view (update_cached_entry key s new c) k
     = (if key = k then map_option (newer_wins (s, new)) (cached_view c k) else cached_view c k)"
  by (auto simp: cached_view_def update_cached_entry_def newer_wins_def Let_def split: option.splits)

lemma cached_view_cong: "db c = db d \<Longrightarrow> cached_view c k = cached_view d k"
  by (simp add: cached_view_def)

lemma view_updater_msg: "cached_view (updater_msg m c) k = register_step k m (cached_view c k)"
proof (cases m)
  case (Delegated key data s)
  have "cached_view (updater_msg m c) k = cached_view (update_cached_entry key s (from_bytes data) c) k"
    by (rule cached_view_cong) (simp add: db_updater_msg Delegated del: updater_msg.simps)
  then show ?thesis by (simp add: Delegated view_update_cached_entry del: updater_msg.simps)
next
  case (Undelegated key s)
  have "cached_view (updater_msg m c) k = cached_view (update_cached_entry key s None c) k"
    by (rule cached_view_cong) (simp add: db_updater_msg Undelegated del: updater_msg.simps)
  then show ?thesis by (simp add: Undelegated view_update_cached_entry del: updater_msg.simps)
qed (simp_all add: cached_view_def)

text \<open>C5: For every key, the stream updater on any sequence of messages implements a register that keeps
  the value with the newest slot, drops everything on an interruption and ignores updates for keys
  it does not hold: replayed and reordered stale updates never displace newer data.\<close>

theorem updater_refines_register:
  "cached_view (deleg_updater msgs c) k = fold (register_step k) msgs (cached_view c k)"
  unfolding deleg_updater_def
  by (induction msgs arbitrary: c) (simp_all add: view_updater_msg)



section \<open>Fetching\<close>

definition answer_entry :: "u64 \<times> u8 list option option \<Rightarrow> delegation_entry" where
  "answer_entry a =
     fetched_entry (fst a) (case snd a of Some (Some bytes) \<Rightarrow> from_bytes bytes | _ \<Rightarrow> None)"

text \<open>The endpoint a fetch is sent to and its answers by attempt.\<close>

definition chain_answers ::
  "deleg_env \<Rightarrow> pubkey \<Rightarrow> u64 option \<Rightarrow> delegations_cache \<Rightarrow> nat \<Rightarrow> account_answer" where
  "chain_answers E pda m c = account_at E (client (fst (base_chain (routes c)))) pda m"

lemma fetch_attempts_Cons:
  "fetch_attempts answer (a # rest) M t =
     (let t' = t + RETRY_BACKOFF_SECONDS * a
      in case answer a of
           Inl _ \<Rightarrow> fetch_attempts answer rest M t'
         | Inr x \<Rightarrow> (answer_entry x,
                     if \<exists>d. snd x = Some d \<and> delegation (answer_entry x) = None
                     then metrics_error ''delegation'' M else M, t'))"
  by (auto simp: answer_entry_def fetched_entry_def Let_def split: sum.splits option.splits)

lemma attempts_list: "[0..<Suc MAX_ACCOUNT_REFETCH_ATTEMPTS] = [0, 1, 2, 3]"
  by (simp add: MAX_ACCOUNT_REFETCH_ATTEMPTS_def upt_rec)

text \<open>C29: A fetch uses one endpoint for all its attempts, makes at most four of them with a back-off of 2, 4
  and 6 seconds in between, returns the entry of the first answer, and when all four fail returns an
  unfilled entry (slot 0, no record) after 12 seconds of back-off.\<close>

theorem fetch_first_answer:
  "case List.find (\<lambda>a. \<not> isl (chain_answers E pda m c a)) [0..<4] of
     Some a \<Rightarrow> fst (fetch E pda m c) = answer_entry (projr (chain_answers E pda m c a))
               \<and> fst (snd (fetch E pda m c)) = a * (a + 1)
   | None \<Rightarrow> fst (fetch E pda m c) = fetched_entry 0 None \<and> fst (snd (fetch E pda m c)) = 12"
proof -
  let ?ans = "chain_answers E pda m c"
  have res: "fst (fetch E pda m c) = fst (fetch_attempts ?ans [0, 1, 2, 3] (cache_metrics c) 0)"
    "fst (snd (fetch E pda m c)) = snd (snd (fetch_attempts ?ans [0, 1, 2, 3] (cache_metrics c) 0))"
    by (simp_all add: fetch_def chain_answers_def split_beta Let_def attempts_list
        del: fetch_attempts.simps upt_Suc)
  have upto: "[0..<4] = [0, 1, 2, 3::nat]" by (simp add: upt_rec)
  have "isl x \<or> (\<exists>y. x = Inr y)" for x :: account_answer by (cases x) simp_all
  then consider x where "?ans 0 = Inr x"
    | x where "isl (?ans 0)" "?ans 1 = Inr x"
    | x where "isl (?ans 0)" "isl (?ans 1)" "?ans 2 = Inr x"
    | x where "isl (?ans 0)" "isl (?ans 1)" "isl (?ans 2)" "?ans 3 = Inr x"
    | "isl (?ans 0)" "isl (?ans 1)" "isl (?ans 2)" "isl (?ans 3)"
    by metis
  then show ?thesis
    by cases (auto simp: res upto fetch_attempts_Cons RETRY_BACKOFF_SECONDS_def isl_def
        simp del: fetch_attempts.simps(2))
qed

lemma fetch_attempts_shape: "\<exists>s r. fst (fetch_attempts answer as M t) = fetched_entry s r"
  by (induction answer as M t rule: fetch_attempts.induct)
     (auto simp: Let_def split: sum.splits option.splits)

lemma fetch_shape: "\<exists>s r. fst (fetch E pda m c) = fetched_entry s r"
  using fetch_attempts_shape by (simp add: fetch_def split_beta Let_def del: fetch_attempts.simps upt_Suc)



section \<open>What a read returns and leaves behind\<close>

definition sample_deleg_env :: deleg_env where
  "sample_deleg_env =
     \<lparr>find_program_address = (\<lambda>seeds program. (Pubkey (last seeds), 255)),
      delegation_program_id = Pubkey [9],
      sync_subscribe = (\<lambda>_. Some 100),
      account_at = (\<lambda>_ _ min_slot attempt.
        if attempt = 0 \<or> min_slot \<noteq> Some 92 then Inl ''not yet'' else Inr (120, Some (Some (replicate 88 5)))),
      evict = (\<lambda>_ _. None),
      await_fill = (\<lambda>_. None)\<rparr>"

definition sample_cache :: delegations_cache where
  "sample_cache = delegations_new sample_table 100 metrics_new"


lemma get_record_loop_hit:
  "\<lbrakk>db c pda = Some e; slot e \<noteq> 0\<rbrakk> \<Longrightarrow> get_record_loop E pda c = (delegation e, c)"
  by (subst get_record_loop.simps) simp

lemma get_record_loop_unowned:
  "\<lbrakk>db c pda = Some e; slot e = 0; pending e = None\<rbrakk> \<Longrightarrow>
     get_record_loop E pda c =
       merge_fetched pda (fst (fetch E pda (pending_min_context_slot e) c)) None
         (snd (snd (fetch E pda (pending_min_context_slot e) c)))"
  by (subst get_record_loop.simps) (simp add: split_beta)

text \<open>The state in which the owner of a fill starts its fetch after a miss.\<close>

definition claimed_state :: "deleg_env \<Rightarrow> pubkey \<Rightarrow> u64 option \<Rightarrow> delegations_cache \<Rightarrow> delegations_cache" where
  "claimed_state E pda m c =
     (let (f, c1) = new_fill c
      in snd (claim_fill pda f m (snd (subscribe E pda (insert_new E pda (placeholder f) c1)))))"

lemma db_claimed_state:
  "db (claimed_state E pda m c) pda =
     Some ((placeholder (fst (new_fill c)))\<lparr>pending_min_context_slot := m\<rparr>)"
  by (simp add: claimed_state_def claim_fill_def split_beta placeholder_def Let_def)

lemma get_record_loop_miss:
  assumes "db c pda = None" and "sync_subscribe E pda = Some s"
  shows "get_record_loop E pda c =
    (let f = fst (new_fill c); m = checked_sub s MIN_CONTEXT_SLOT_ROLLBACK;
         c3 = claimed_state E pda m c;
         (r, c4) = merge_fetched pda (fst (fetch E pda m c3)) (Some f) (snd (snd (fetch E pda m c3)))
     in (r, send_fill f r (release_fill pda f c4)))"
proof -
  let ?m = "checked_sub s MIN_CONTEXT_SLOT_ROLLBACK"
  obtain f c1 where f: "new_fill c = (f, c1)" by fastforce
  obtain c2 where sub: "subscribe E pda (insert_new E pda (placeholder f) c1) = (Some s, c2)"
    using assms(2) by (simp add: subscribe_def)
  have c3: "claimed_state E pda ?m c = snd (claim_fill pda f ?m c2)"
    by (simp add: claimed_state_def f sub)
  have owns: "fst (claim_fill pda f ?m c2)"
    using db_after_subscribe [OF sub [symmetric]] by (rule claim_fill_placeholder)
  have "stream_fill_ready pda (claimed_state E pda ?m c) = None"
    by (simp add: stream_fill_ready_def db_claimed_state placeholder_def)
  then show ?thesis
    using assms(1) owns
    by (subst get_record_loop.simps) (simp add: f sub c3 Let_def split_beta)
qed

text \<open>C8: A miss with a live sync service returns what the chain answered for a context slot at least
  the subscription slot minus 8, and caches exactly that entry; if every attempt failed, it returns no
  record and leaves an unfilled entry without an owner that remembers the minimal slot, so that the
  next reader fetches again.  Either way the subscription precedes the fetch.\<close>

theorem get_record_miss_fills:
  assumes "db c (pda_for E key) = None" and "sync_subscribe E (pda_for E key) = Some s"
  shows "let pda = pda_for E key; m = checked_sub s MIN_CONTEXT_SLOT_ROLLBACK;
             new = fst (fetch E pda m (claimed_state E pda m c));
             (r, c') = get_record E key c
         in db c' pda =
              Some (if slot new = 0
                    then \<lparr>slot = 0, delegation = None, pending_min_context_slot = m, pending = None\<rparr>
                    else new)
          \<and> r = (if slot new = 0 then None else delegation new)
          \<and> SyncSubscribe pda \<in> set (syncer (claimed_state E pda m c))"
proof -
  let ?pda = "pda_for E key" and ?m = "checked_sub s MIN_CONTEXT_SLOT_ROLLBACK"
  let ?c3 = "claimed_state E ?pda ?m c"
  obtain t r where new: "fst (fetch E ?pda ?m ?c3) = fetched_entry t r"
    using fetch_shape by blast
  have "db (snd (snd (fetch E ?pda ?m ?c3))) ?pda =
      Some ((placeholder (fst (new_fill c)))\<lparr>pending_min_context_slot := ?m\<rparr>)"
    by (simp add: db_claimed_state)
  moreover have "SyncSubscribe ?pda \<in> set (syncer ?c3)"
    using assms(2)
    by (simp add: claimed_state_def claim_fill_def subscribe_def split_beta Let_def split: option.splits)
  ultimately show ?thesis
    using new
    by (auto simp: get_record_def get_record_loop_miss [OF assms] Let_def merge_fetched_def
        release_fill_def send_fill_def placeholder_def fetched_entry_def word_gt_0)
qed

lemma sample_fetch:
  "fst (fetch sample_deleg_env pda (Some 92) c) = fetched_entry 120 (from_bytes (replicate 88 5))"
  by (simp add: fetch_def split_beta Let_def attempts_list sample_deleg_env_def fetch_attempts_Cons
      answer_entry_def del: fetch_attempts.simps(2) upt_Suc)

lemma sample_min_slot: "checked_sub 100 MIN_CONTEXT_SLOT_ROLLBACK = Some 92"
  by (simp add: checked_sub_def MIN_CONTEXT_SLOT_ROLLBACK_def word_le_nat_alt)

theorem get_record_miss_fills_witness:
  "fst (get_record sample_deleg_env (Pubkey [7]) sample_cache) = from_bytes (replicate 88 5)"
proof -
  have "db sample_cache (pda_for sample_deleg_env (Pubkey [7])) = None"
    "sync_subscribe sample_deleg_env (pda_for sample_deleg_env (Pubkey [7])) = Some 100"
    by (simp_all add: sample_cache_def delegations_new_def sample_deleg_env_def)
  from get_record_miss_fills [OF this] show ?thesis
    by (simp add: sample_min_slot sample_fetch fetched_entry_def split_beta Let_def)
qed

end
