(* ===== verification/Delegation_Tasks.thy ===== *)
theory Delegation_Tasks
  imports Delegations
begin

text \<open>
  The concurrent use of \<open>src/cache/delegations.rs\<close>: any number of callers run \<open>get_record\<close>, the stream
  updater applies messages, callers may be cancelled at any await point.  A caller is a program
  counter; its steps are the atomic operations on the backing map between two await points, the same
  functions the uninterrupted reading of \<open>Delegations\<close> composes.  What the RPC endpoint and the sync
  service answer and which entry is evicted is free in every step.

  The invariant says who may hold a pending fill.  From it follow: a fill has one owner; an entry never
  keeps a fill that has been resolved; a caller that waits for a fill waits for a caller that can
  still move; the answer of a caller agrees with the cache, or with the fill it waited for, at the step
  that fixes it; slots never go backwards.  Schedules are explicit runs with the answers of the outside
  world written out; with one of them a filled entry loses its subscription, under a hash cache that
  evicts only when it is full.
\<close>

section \<open>Callers\<close>

datatype pc =
    Start
  | AwaitFill pending_fill
  | RemoveStale pending_fill
  | FetchUnowned "u64 option"
  | MergeUnowned delegation_entry
  | InsertPlaceholder
  | Evicting pending_fill pubkey
  | Subscribing pending_fill
  | SubscribeFailed pending_fill
  | FetchUnsubscribed pending_fill
  | CheckOwner pending_fill "u64 option"
  | Filling pending_fill "u64 option"
  | MergeOwned pending_fill delegation_entry
  | Publishing pending_fill "parsed_delegation_record option"
  | Sending pending_fill "parsed_delegation_record option"
  | Done "parsed_delegation_record option"
  | Cancelled

text \<open>The sender of the fill a caller would drop if it were cancelled here.\<close>

fun owned :: "pc \<Rightarrow> pending_fill option" where
  "owned (Evicting f v) = Some f"
| "owned (Subscribing f) = Some f"
| "owned (SubscribeFailed f) = Some f"
| "owned (FetchUnsubscribed f) = Some f"
| "owned (CheckOwner f m) = Some f"
| "owned (Filling f m) = Some f"
| "owned (MergeOwned f e) = Some f"
| "owned (Publishing f r) = Some f"
| "owned (Sending f r) = Some f"
| "owned _ = None"

text \<open>Whether the caller's placeholder can still be in the map.\<close>

fun placed :: "pc \<Rightarrow> bool" where
  "placed (FetchUnsubscribed f) = False"
| "placed (Sending f r) = False"
| "placed _ = True"

fun awaited :: "pc \<Rightarrow> pending_fill option" where
  "awaited (AwaitFill f) = Some f"
| "awaited _ = None"

fun finished :: "pc \<Rightarrow> bool" where
  "finished (Done r) = True"
| "finished Cancelled = True"
| "finished _ = False"

definition drop_owned :: "pc \<Rightarrow> delegations_cache \<Rightarrow> delegations_cache" where
  "drop_owned p c = (case owned p of None \<Rightarrow> c | Some f \<Rightarrow> drop_fill f c)"

inductive task_step :: "pubkey \<Rightarrow> pc \<Rightarrow> delegations_cache \<Rightarrow> pc \<Rightarrow> delegations_cache \<Rightarrow> bool"
  for pda :: pubkey where
  read_hit: "\<lbrakk>db c pda = Some e; slot e \<noteq> 0\<rbrakk> \<Longrightarrow> task_step pda Start c (Done (delegation e)) c"
| read_wait: "\<lbrakk>db c pda = Some e; slot e = 0; pending e = Some f\<rbrakk>
    \<Longrightarrow> task_step pda Start c (AwaitFill f) c"
| read_unowned: "\<lbrakk>db c pda = Some e; slot e = 0; pending e = None\<rbrakk>
    \<Longrightarrow> task_step pda Start c (FetchUnowned (pending_min_context_slot e)) c"
| read_miss: "db c pda = None \<Longrightarrow> task_step pda Start c InsertPlaceholder c"
| await_ok: "result_of f (fill_table c) = Resolved r \<Longrightarrow> task_step pda (AwaitFill f) c (Done r) c"
| await_err: "result_of f (fill_table c) = Dropped
    \<Longrightarrow> task_step pda (AwaitFill f) c (RemoveStale f) c"
| remove_stale: "task_step pda (RemoveStale f) c Start (snd (remove_pending_fill pda f c))"
| fetch_unowned: "fetch E pda m c = (e, t, c') \<Longrightarrow> task_step pda (FetchUnowned m) c (MergeUnowned e) c'"
| merge_unowned: "merge_fetched pda e None c = (r, c')
    \<Longrightarrow> task_step pda (MergeUnowned e) c (Done r) c'"
| insert_vacant: "\<lbrakk>db c pda = None; new_fill c = (f, c1); put_entry E pda (placeholder f) c1 = (v, c2)\<rbrakk>
    \<Longrightarrow> task_step pda InsertPlaceholder c
          (case v of None \<Rightarrow> Subscribing f | Some k \<Rightarrow> Evicting f k) c2"
| insert_occupied: "\<lbrakk>db c pda \<noteq> None; new_fill c = (f, c1)\<rbrakk>
    \<Longrightarrow> task_step pda InsertPlaceholder c Start (drop_fill f c1)"
| evicted: "task_step pda (Evicting f k) c (Subscribing f) (unsubscribe k c)"
| subscribed: "subscribe E pda c = (Some s, c')
    \<Longrightarrow> task_step pda (Subscribing f) c
          (CheckOwner f (checked_sub s MIN_CONTEXT_SLOT_ROLLBACK)) c'"
| subscribe_failed: "subscribe E pda c = (None, c')
    \<Longrightarrow> task_step pda (Subscribing f) c (SubscribeFailed f) c'"
| failed_removed: "remove_pending_fill pda f c = (True, c')
    \<Longrightarrow> task_step pda (SubscribeFailed f) c (FetchUnsubscribed f) c'"
| failed_gone: "remove_pending_fill pda f c = (False, c')
    \<Longrightarrow> task_step pda (SubscribeFailed f) c Start (drop_fill f c')"
| fetch_unsubscribed: "fetch E pda None c = (e, t, c')
    \<Longrightarrow> task_step pda (FetchUnsubscribed f) c (Done (delegation e)) (send_fill f (delegation e) c')"
| owner_yes: "claim_fill pda f m c = (True, c') \<Longrightarrow> task_step pda (CheckOwner f m) c (Filling f m) c'"
| owner_no: "claim_fill pda f m c = (False, c')
    \<Longrightarrow> task_step pda (CheckOwner f m) c Start (drop_fill f c')"
| fill_fetched: "fetch E pda m c = (e, t, c') \<Longrightarrow> task_step pda (Filling f m) c (MergeOwned f e) c'"
| fill_streamed: "stream_fill_ready pda c = Some r
    \<Longrightarrow> task_step pda (Filling f m) c (Publishing f r) c"
| merge_owned: "merge_fetched pda e (Some f) c = (r, c')
    \<Longrightarrow> task_step pda (MergeOwned f e) c (Publishing f r) c'"
| publish: "task_step pda (Publishing f r) c (Sending f r) (release_fill pda f c)"
| send: "task_step pda (Sending f r) c (Done r) (send_fill f r c)"


section \<open>The system\<close>

record system =
  sys_cache :: delegations_cache
  tasks :: "nat \<rightharpoonup> pubkey \<times> pc"

inductive sys_step :: "system \<Rightarrow> system \<Rightarrow> bool" where
  sys_spawn: "tasks s i = None \<Longrightarrow> sys_step s (s\<lparr>tasks := (tasks s)(i \<mapsto> (pda, Start))\<rparr>)"
| sys_task: "\<lbrakk>tasks s i = Some (pda, p); task_step pda p (sys_cache s) p' c'\<rbrakk>
    \<Longrightarrow> sys_step s (s\<lparr>sys_cache := c', tasks := (tasks s)(i \<mapsto> (pda, p'))\<rparr>)"
| sys_cancel: "\<lbrakk>tasks s i = Some (pda, p); \<not> finished p\<rbrakk>
    \<Longrightarrow> sys_step s (s\<lparr>sys_cache := drop_owned p (sys_cache s),
                      tasks := (tasks s)(i \<mapsto> (pda, Cancelled))\<rparr>)"
| sys_update: "sys_step s (s\<lparr>sys_cache := updater_msg m (sys_cache s)\<rparr>)"

definition sys_init :: "system \<Rightarrow> bool" where
  "sys_init s \<longleftrightarrow> tasks s = Map.empty \<and> db (sys_cache s) = Map.empty
     \<and> fill_table (sys_cache s) = fills_init"

inductive_simps task_step_Start: "task_step pda Start c p' c'"
inductive_simps task_step_AwaitFill: "task_step pda (AwaitFill f) c p' c'"
inductive_cases task_stepE: "task_step pda p c p' c'"
inductive_cases sys_stepE: "sys_step s t"


section \<open>The invariant\<close>

fun fill_id :: "pending_fill \<Rightarrow> nat" where
  "fill_id (PendingFill i) = i"

definition owner_at :: "system \<Rightarrow> pending_fill \<Rightarrow> nat \<Rightarrow> pubkey \<Rightarrow> pc \<Rightarrow> bool" where
  "owner_at s f i k p \<longleftrightarrow> tasks s i = Some (k, p) \<and> owned p = Some f"

abbreviation fres :: "system \<Rightarrow> pending_fill \<Rightarrow> fill_state" where
  "fres s f \<equiv> result_of f (fill_table (sys_cache s))"

abbreviation fnext :: "system \<Rightarrow> nat" where
  "fnext s \<equiv> next_fill (fill_table (sys_cache s))"

text \<open>Entries are well formed; a fill in the map is dropped or held by its owner, which runs for that
  key and has not published yet.\<close>

definition inv_db :: "system \<Rightarrow> bool" where
  "inv_db s \<longleftrightarrow> wf_db (sys_cache s)
     \<and> (\<forall>k e f. db (sys_cache s) k = Some e \<longrightarrow> pending e = Some f \<longrightarrow>
          fill_id f < fnext s
          \<and> (fres s f = Dropped \<or> (\<exists>i p. owner_at s f i k p \<and> placed p)))"

text \<open>Owners hold distinct unresolved fills.\<close>

definition inv_owner :: "system \<Rightarrow> bool" where
  "inv_owner s \<longleftrightarrow>
     (\<forall>i k p f. owner_at s f i k p \<longrightarrow> fill_id f < fnext s \<and> fres s f = Unresolved)
     \<and> (\<forall>i j k l p q f. owner_at s f i k p \<longrightarrow> owner_at s f j l q \<longrightarrow> i = j)"

text \<open>A caller that waits waits for an owner or for a decided fill.\<close>

definition inv_wait :: "system \<Rightarrow> bool" where
  "inv_wait s \<longleftrightarrow>
     (\<forall>i k p f. tasks s i = Some (k, p) \<longrightarrow> awaited p = Some f \<longrightarrow>
        fres s f \<noteq> Unresolved \<or> (\<exists>j l q. owner_at s f j l q))"

definition inv_fresh :: "system \<Rightarrow> bool" where
  "inv_fresh s \<longleftrightarrow> (\<forall>f. fnext s \<le> fill_id f \<longrightarrow> fres s f = Unresolved)"

text \<open>What a caller holds between its fetch and its merge has the shape of a fetched entry.\<close>

definition inv_fetched :: "system \<Rightarrow> bool" where
  "inv_fetched s \<longleftrightarrow>
     (\<forall>i k p e. tasks s i = Some (k, p) \<longrightarrow>
        (p = MergeUnowned e \<or> (\<exists>f. p = MergeOwned f e)) \<longrightarrow> (\<exists>t r. e = fetched_entry t r))"

definition sys_inv :: "system \<Rightarrow> bool" where
  "sys_inv s \<longleftrightarrow> inv_db s \<and> inv_owner s \<and> inv_wait s \<and> inv_fresh s \<and> inv_fetched s"

lemma sys_inv_init: "sys_init s \<Longrightarrow> sys_inv s"
  by (simp add: sys_init_def sys_inv_def inv_db_def inv_owner_def inv_wait_def inv_fresh_def
      inv_fetched_def owner_at_def wf_db_def fills_init_def split: option.splits)
     (metis fill_id.cases fills.select_convs(2) result_of.simps)



section \<open>How the operations touch fills\<close>

lemma result_fill_drop [simp]:
  "result_of f (fill_drop g F) = (if f = g \<and> result_of g F = Unresolved then Dropped else result_of f F)"
  by (cases f; cases g) (auto split: fill_state.splits)

lemma result_fill_send [simp]:
  "result_of f (fill_send g r F) = (if f = g \<and> result_of g F = Unresolved then Resolved r else result_of f F)"
  by (cases f; cases g) (auto split: fill_state.splits)

lemma result_notify [simp]: "result_of f (notify_filled g F) = result_of f F"
  by (cases f; cases g) simp

lemma next_fill_ops [simp]:
  "next_fill (fill_drop g F) = next_fill F"
  "next_fill (fill_send g r F) = next_fill F"
  "next_fill (notify_filled g F) = next_fill F"
  by (cases g; auto split: fill_state.splits)+

declare fill_drop.simps [simp del] fill_send.simps [simp del] notify_filled.simps [simp del]
  result_of.simps [simp del]

lemma fill_table_writers [simp]:
  "fill_table (snd (remove_pending_fill pda f c)) = fill_table c"
  "fill_table (snd (put_entry E pda e c)) = fill_table c"
  "fill_table (unsubscribe k c) = fill_table c"
  "fill_table (snd (subscribe E pda c)) = fill_table c"
  "fill_table (snd (claim_fill pda f m c)) = fill_table c"
  "fill_table (release_fill pda f c) = fill_table c"
  "fill_table (snd (merge_fetched pda e g c)) = fill_table c"
  "fill_table (snd (snd (fetch E pda m c))) = fill_table c"
  by (simp_all add: db_op_defs fetch_def split_beta Let_def split: option.splits)

lemma fill_updater_msg [simp]:
  "result_of f (fill_table (updater_msg m c)) = result_of f (fill_table c)"
  "next_fill (fill_table (updater_msg m c)) = next_fill (fill_table c)"
  by (cases m; simp add: update_cached_entry_def Let_def split: option.splits)+

lemma db_frames [simp]:
  "db (unsubscribe k c) = db c"
  by (simp add: unsubscribe_def)

text \<open>Pending fills of the map after a write, relative to the map before.\<close>

definition pend_sub :: "delegations_cache \<Rightarrow> delegations_cache \<Rightarrow> bool" where
  "pend_sub c' c \<longleftrightarrow> (\<forall>k e f. db c' k = Some e \<longrightarrow> pending e = Some f \<longrightarrow>
     (\<exists>e0. db c k = Some e0 \<and> pending e0 = Some f))"

lemma pend_sub_same: "db c' = db c \<Longrightarrow> pend_sub c' c"
  by (simp add: pend_sub_def)

lemma pend_sub_writers [simp]:
  "pend_sub (snd (remove_pending_fill pda f c)) c"
  "pend_sub (snd (claim_fill pda f m c)) c"
  "pend_sub (release_fill pda f c) c"
  "pend_sub (snd (merge_fetched pda (fetched_entry t r) g c)) c"
  "pend_sub (updater_msg m' c) c"
  by (auto simp: pend_sub_def db_op_defs db_updater_msg update_cached_entry_def Let_def
      split: option.splits if_splits account_update.splits)

section \<open>Every step keeps the invariant\<close>

lemma inv_ownerD: "sys_inv s \<Longrightarrow> owner_at s f i k p \<Longrightarrow> fill_id f < fnext s \<and> fres s f = Unresolved"
  unfolding sys_inv_def inv_owner_def by blast

lemma inv_owner_unique:
  assumes "sys_inv s" and "owner_at s f i k p" and "owner_at s f j l q"
  shows "j = i \<and> l = k \<and> q = p"
proof -
  from assms have "j = i" unfolding sys_inv_def inv_owner_def by blast
  with assms(2,3) show ?thesis by (simp add: owner_at_def)
qed

text \<open>A caller moves without creating or deciding a fill.\<close>

lemma inv_move:
  assumes inv: "sys_inv s" and task: "tasks s i = Some (k, p)"
    and wf: "wf_db c'" and sub: "pend_sub c' (sys_cache s)"
    and res: "\<And>f. result_of f (fill_table c') = fres s f" and nxt: "next_fill (fill_table c') = fnext s"
    and own: "owned p' = owned p"
    and plc: "\<And>f e. \<lbrakk>owned p = Some f; \<not> placed p'; db c' k = Some e\<rbrakk> \<Longrightarrow> pending e \<noteq> Some f"
    and aw: "\<And>f. awaited p' = Some f \<Longrightarrow> fres s f \<noteq> Unresolved \<or> (\<exists>j l q. owner_at s f j l q)"
    and fe: "\<And>e. p' = MergeUnowned e \<or> (\<exists>f. p' = MergeOwned f e) \<Longrightarrow> \<exists>t r. e = fetched_entry t r"
  shows "sys_inv (s\<lparr>sys_cache := c', tasks := (tasks s)(i \<mapsto> (k, p'))\<rparr>)" (is "sys_inv ?t")
proof -
  have owner: "owner_at ?t f j l q \<longleftrightarrow>
      (if j = i then l = k \<and> q = p' \<and> owner_at s f i k p else owner_at s f j l q)" for f j l q
    using task own by (auto simp: owner_at_def)
  have some_owner: "(\<exists>j l q. owner_at ?t f j l q) \<longleftrightarrow> (\<exists>j l q. owner_at s f j l q)" for f
    using task unfolding owner by (metis owner_at_def option.inject prod.inject)
  note inv' = inv [unfolded sys_inv_def]
  have "inv_db ?t"
    unfolding inv_db_def
  proof (intro conjI allI impI)
    fix k' e f
    assume e: "db (sys_cache ?t) k' = Some e" and f: "pending e = Some f"
    have "\<exists>e0. db (sys_cache s) k' = Some e0 \<and> pending e0 = Some f"
      using sub e f unfolding pend_sub_def by simp
    with inv' have old: "fill_id f < fnext s"
      "fres s f = Dropped \<or> (\<exists>j q. owner_at s f j k' q \<and> placed q)"
      by (auto simp: inv_db_def)
    then show "fill_id f < fnext ?t" by (simp add: nxt)
    show "fres ?t f = Dropped \<or> (\<exists>j q. owner_at ?t f j k' q \<and> placed q)"
      using old(2) task plc e f unfolding owner by (simp add: res) (metis owner_at_def option.inject prod.inject)
  qed (simp add: wf)
  moreover have "inv_owner ?t"
    using inv' unfolding inv_owner_def owner by (auto simp: res nxt)
  moreover have "inv_wait ?t"
    unfolding inv_wait_def some_owner
  proof (intro allI impI)
    fix j l q f
    assume "tasks ?t j = Some (l, q)" and "awaited q = Some f"
    then show "fres ?t f \<noteq> Unresolved \<or> (\<exists>j l q. owner_at s f j l q)"
      using inv' aw by (cases "j = i") (auto simp: inv_wait_def res)
  qed
  moreover have "inv_fresh ?t" using inv' by (simp add: inv_fresh_def res nxt)
  moreover have "inv_fetched ?t" using inv' fe by (auto simp: inv_fetched_def)
  ultimately show ?thesis by (simp add: sys_inv_def)
qed


text \<open>An owner that has published or has removed its placeholder is not in the map.\<close>

lemma unplaced_not_in_db:
  assumes "sys_inv s" and "owner_at s f i k p" and "\<not> placed p" and "db (sys_cache s) k' = Some e"
  shows "pending e \<noteq> Some f"
proof
  assume "pending e = Some f"
  with assms(1,4) have "fres s f = Dropped \<or> (\<exists>j q. owner_at s f j k' q \<and> placed q)"
    by (auto simp: sys_inv_def inv_db_def)
  moreover have "fres s f = Unresolved" and "\<And>j l q. owner_at s f j l q \<Longrightarrow> j = i"
    using assms(1,2) by (auto simp: sys_inv_def inv_owner_def)
  ultimately show False
    using assms(2,3) by (auto simp: owner_at_def)
qed

text \<open>A caller decides its fill, by sending a result or by dropping the sender.\<close>

lemma inv_decide:
  assumes inv: "sys_inv s" and task: "tasks s i = Some (k, p)" and own: "owned p = Some f"
    and wf: "wf_db c'" and sub: "pend_sub c' (sys_cache s)"
    and res: "\<And>g. result_of g (fill_table c') = (if g = f then X else fres s g)"
    and X: "X \<noteq> Unresolved" "X \<noteq> Dropped \<Longrightarrow> \<not> placed p"
    and nxt: "next_fill (fill_table c') = fnext s"
    and p': "owned p' = None" "awaited p' = None" "\<And>e. p' \<noteq> MergeUnowned e"
  shows "sys_inv (s\<lparr>sys_cache := c', tasks := (tasks s)(i \<mapsto> (k, p'))\<rparr>)" (is "sys_inv ?t")
proof -
  note inv' = inv [unfolded sys_inv_def]
  have uniq: "owner_at s f j l q \<longleftrightarrow> j = i \<and> l = k \<and> q = p" for j l q
    using inv_owner_unique [OF inv, of f i k p j l q] task own by (auto simp: owner_at_def)
  have owner: "owner_at ?t g j l q \<longleftrightarrow> owner_at s g j l q \<and> g \<noteq> f" for g j l q
    using task own p'(1) uniq [of j l q] by (auto simp: owner_at_def)
  have merge: "p' \<noteq> MergeOwned g e" for g e using p'(1) by auto
  have "inv_db ?t"
    unfolding inv_db_def
  proof (intro conjI allI impI)
    fix k' e g
    assume e: "db (sys_cache ?t) k' = Some e" and g: "pending e = Some g"
    have old: "\<exists>e0. db (sys_cache s) k' = Some e0 \<and> pending e0 = Some g"
      using sub e g unfolding pend_sub_def by simp
    with inv' have "fill_id g < fnext s"
      "fres s g = Dropped \<or> (\<exists>j q. owner_at s g j k' q \<and> placed q)"
      by (auto simp: inv_db_def)
    moreover have "g = f \<Longrightarrow> X = Dropped"
      using X(2) old unplaced_not_in_db [OF inv, of f i k p] uniq by blast
    ultimately show "fill_id g < fnext ?t"
      and "fres ?t g = Dropped \<or> (\<exists>j q. owner_at ?t g j k' q \<and> placed q)"
      unfolding owner by (auto simp: res nxt)
  qed (simp add: wf)
  moreover have "inv_owner ?t"
    using inv' unfolding inv_owner_def owner by (auto simp: res nxt)
  moreover have "inv_wait ?t"
    unfolding inv_wait_def owner
  proof (intro allI impI)
    fix j l q g
    assume "tasks ?t j = Some (l, q)" and "awaited q = Some g"
    then show "fres ?t g \<noteq> Unresolved \<or> (\<exists>j l q. owner_at s g j l q \<and> g \<noteq> f)"
      using inv' p'(2) X(1) by (cases "j = i") (auto simp: inv_wait_def res)
  qed
  moreover have "inv_fresh ?t"
    using inv' inv_ownerD [OF inv, of f i k p] own task
    by (auto simp: inv_fresh_def owner_at_def res nxt)
  moreover have "inv_fetched ?t" using inv' p'(3) merge by (auto simp: inv_fetched_def)
  ultimately show ?thesis by (simp add: sys_inv_def)
qed

text \<open>A caller allocates a fill and puts its placeholder into the map.\<close>

lemma inv_insert:
  assumes inv: "sys_inv s" and task: "tasks s i = Some (k, p)" and p: "owned p = None"
    and f: "f = PendingFill (fnext s)"
    and wf: "wf_db c'"
    and sub: "\<And>k' e g. \<lbrakk>db c' k' = Some e; pending e = Some g; (k', g) \<noteq> (k, f)\<rbrakk>
        \<Longrightarrow> \<exists>e0. db (sys_cache s) k' = Some e0 \<and> pending e0 = Some g"
    and res: "\<And>g. result_of g (fill_table c') = fres s g"
    and nxt: "next_fill (fill_table c') = Suc (fnext s)"
    and p': "owned p' = Some f" "placed p'" "awaited p' = None" "\<And>e. p' \<noteq> MergeOwned f e"
  shows "sys_inv (s\<lparr>sys_cache := c', tasks := (tasks s)(i \<mapsto> (k, p'))\<rparr>)" (is "sys_inv ?t")
proof -
  note inv' = inv [unfolded sys_inv_def]
  have new: "\<not> owner_at s f j l q" for j l q
    using inv_ownerD [OF inv, of f j l q] f by auto
  have owner: "owner_at ?t g j l q \<longleftrightarrow> (if j = i then l = k \<and> q = p' \<and> g = f else owner_at s g j l q)"
    for g j l q using p'(1) by (auto simp: owner_at_def)
  have keep: "owner_at s g j l q \<Longrightarrow> owner_at ?t g j l q" for g j l q
    using task p unfolding owner by (auto simp: owner_at_def)
  have ff: "fres s f = Unresolved"
    using inv' f by (metis inv_fresh_def fill_id.simps order.refl)
  have merges: "p' \<noteq> MergeUnowned e" "p' \<noteq> MergeOwned g e" for g e using p'(1) p'(4) [of e] by auto
  have "inv_db ?t"
    unfolding inv_db_def
  proof (intro conjI allI impI)
    fix k' e g
    assume e: "db (sys_cache ?t) k' = Some e" and g: "pending e = Some g"
    have "fill_id g < fnext ?t \<and> (fres ?t g = Dropped \<or> (\<exists>j q. owner_at ?t g j k' q \<and> placed q))"
    proof (cases "(k', g) = (k, f)")
      case True
      then have "owner_at ?t g i k' p'" by (simp add: owner)
      with True p'(2) show ?thesis by (auto simp: f nxt)
    next
      case False
      then have "\<exists>e0. db (sys_cache s) k' = Some e0 \<and> pending e0 = Some g" using sub e g by simp
      with inv' have "fill_id g < fnext s"
        "fres s g = Dropped \<or> (\<exists>j q. owner_at s g j k' q \<and> placed q)"
        by (auto simp: inv_db_def)
      moreover from this(2) have "fres s g = Dropped \<or> (\<exists>j q. owner_at ?t g j k' q \<and> placed q)"
        using keep by blast
      ultimately show ?thesis by (simp add: res nxt)
    qed
    then show "fill_id g < fnext ?t"
      and "fres ?t g = Dropped \<or> (\<exists>j q. owner_at ?t g j k' q \<and> placed q)" by simp_all
  qed (simp add: wf)
  moreover have "inv_owner ?t"
    using inv' new ff f unfolding inv_owner_def owner by (auto simp: res nxt less_Suc_eq)
  moreover have "inv_wait ?t"
    unfolding inv_wait_def
  proof (intro allI impI)
    fix j l q g
    assume "tasks ?t j = Some (l, q)" and "awaited q = Some g"
    then have "fres s g \<noteq> Unresolved \<or> (\<exists>j l q. owner_at s g j l q)"
      using inv' p'(3) by (cases "j = i") (auto simp: inv_wait_def)
    then have "fres s g \<noteq> Unresolved \<or> (\<exists>j l q. owner_at ?t g j l q)" using keep by blast
    then show "fres ?t g \<noteq> Unresolved \<or> (\<exists>j l q. owner_at ?t g j l q)" by (simp add: res)
  qed
  moreover have "inv_fresh ?t" using inv' by (auto simp: inv_fresh_def res nxt)
  moreover have "inv_fetched ?t" using inv' merges by (auto simp: inv_fetched_def)
  ultimately show ?thesis by (simp add: sys_inv_def)
qed


text \<open>A caller finds the entry occupied: its new fill is created and dropped at once.\<close>

lemma inv_alloc_drop:
  assumes inv: "sys_inv s" and task: "tasks s i = Some (k, p)" and p: "owned p = None"
    and db: "db c' = db (sys_cache s)"
    and res: "\<And>g. result_of g (fill_table c') = (if g = PendingFill (fnext s) then Dropped else fres s g)"
    and nxt: "next_fill (fill_table c') = Suc (fnext s)"
  shows "sys_inv (s\<lparr>sys_cache := c', tasks := (tasks s)(i \<mapsto> (k, Start))\<rparr>)" (is "sys_inv ?t")
proof -
  note inv' = inv [unfolded sys_inv_def]
  have owner: "owner_at ?t g j l q \<longleftrightarrow> owner_at s g j l q" for g j l q
    using task p by (auto simp: owner_at_def)
  have "inv_db ?t"
    using inv' unfolding inv_db_def owner by (auto simp: db res wf_db_def nxt intro: less_SucI)
  moreover have "inv_owner ?t"
    using inv_ownerD [OF inv] inv_owner_unique [OF inv] unfolding inv_owner_def owner
    by (fastforce simp: res nxt intro: less_SucI)
  moreover have "inv_wait ?t"
    using inv' unfolding inv_wait_def owner by (auto simp: res)
  moreover have "inv_fresh ?t" using inv' by (auto simp: inv_fresh_def res nxt)
  moreover have "inv_fetched ?t" using inv' by (auto simp: inv_fetched_def)
  ultimately show ?thesis by (simp add: sys_inv_def)
qed

lemma fetchD:
  assumes "fetch E pda m c = (e, t, c')"
  shows "db c' = db c \<and> fill_table c' = fill_table c \<and> (\<exists>s r. e = fetched_entry s r)"
  using db_fetch [of E pda m c] fill_table_writers(8) [of E pda m c] fetch_shape [of E pda m c] assms
  by simp

lemma mergeD:
  assumes "merge_fetched pda e g c = (r, c')" and "e = fetched_entry t r0" and "wf_db c"
  shows "wf_db c' \<and> pend_sub c' c \<and> fill_table c' = fill_table c"
  using merge_writer.write_wf [OF assms(3), of pda t r0 g] pend_sub_writers(4) [of pda t r0 g c]
    fill_table_writers(7) [of pda e g c] assms(1,2) by (metis snd_conv)

lemma new_fillD:
  assumes "new_fill c = (f, c1)"
  shows "f = PendingFill (next_fill (fill_table c)) \<and> db c1 = db c
    \<and> next_fill (fill_table c1) = Suc (next_fill (fill_table c))
    \<and> (\<forall>g. result_of g (fill_table c1) = result_of g (fill_table c))"
proof -
  have "result_of g (fill_table c1) = result_of g (fill_table c)" for g
    using assms by (cases g) (auto simp: new_fill_def fill_new_def result_of.simps)
  with assms show ?thesis by (auto simp: new_fill_def fill_new_def)
qed

lemma putD:
  assumes "put_entry E pda (placeholder f) c = (v, c')" and "wf_db c" and "db c pda = None"
  shows "wf_db c' \<and> fill_table c' = fill_table c
    \<and> (\<forall>k e g. db c' k = Some e \<longrightarrow> pending e = Some g \<longrightarrow> (k, g) \<noteq> (pda, f) \<longrightarrow> db c k = Some e)"
  using insert_writer.write_wf [OF assms(2), of pda E f] fill_table_writers(2) [of E pda "placeholder f" c]
    assms by (auto simp: put_entry_def placeholder_def split: option.splits if_splits)

lemma released_not_held:
  "db (release_fill k f c) k = Some e \<Longrightarrow> pending e \<noteq> Some f"
  by (auto simp: release_fill_def split: option.splits if_splits)

lemma removed_gone: "remove_pending_fill k f c = (True, c') \<Longrightarrow> db c' k = None"
  by (auto simp: remove_pending_fill_def split: option.splits if_splits)


lemma subscribeD: "subscribe E pda c = (x, c') \<Longrightarrow> db c' = db c \<and> fill_table c' = fill_table c"
  by (auto simp: subscribe_def split: option.splits)

lemma removeD:
  assumes "remove_pending_fill pda f c = (b, c')" and "wf_db c"
  shows "wf_db c' \<and> pend_sub c' c \<and> fill_table c' = fill_table c"
  using remove_writer.write_wf [OF assms(2), of pda f] pend_sub_writers(1) [of pda f c]
    fill_table_writers(1) [of pda f c] assms(1) by (metis snd_conv)

lemma claimD:
  assumes "claim_fill pda f m c = (b, c')" and "wf_db c"
  shows "wf_db c' \<and> pend_sub c' c \<and> fill_table c' = fill_table c"
  using claim_writer.write_wf [OF assms(2), of pda f m] pend_sub_writers(2) [of pda f m c]
    fill_table_writers(5) [of pda f m c] assms(1) by (metis snd_conv)

lemma wf_db_drop [simp]: "wf_db (drop_fill f c) \<longleftrightarrow> wf_db c" "wf_db (send_fill f r c) \<longleftrightarrow> wf_db c"
  by (simp_all add: wf_db_def)

lemma pend_sub_drop [simp]:
  "pend_sub (drop_fill f c') c \<longleftrightarrow> pend_sub c' c"
  "pend_sub (send_fill f r c') c \<longleftrightarrow> pend_sub c' c"
  by (simp_all add: pend_sub_def)

lemma fill_table_decide [simp]:
  "fill_table (drop_fill f c) = fill_drop f (fill_table c)"
  "fill_table (send_fill f r c) = fill_send f r (fill_table c)"
  by (simp_all add: drop_fill_def send_fill_def)

lemma task_step_inv:
  assumes inv: "sys_inv s" and task: "tasks s i = Some (k, p)"
    and step: "task_step k p (sys_cache s) p' c'"
  shows "sys_inv (s\<lparr>sys_cache := c', tasks := (tasks s)(i \<mapsto> (k, p'))\<rparr>)"
proof -
  have wf: "wf_db (sys_cache s)" using inv by (simp add: sys_inv_def inv_db_def)
  have unresolved: "owned p = Some f \<Longrightarrow> fres s f = Unresolved" for f
    using inv_ownerD [OF inv, of f i k p] task by (simp add: owner_at_def)
  have fe: "p = MergeUnowned e \<or> p = MergeOwned f e \<Longrightarrow> \<exists>t r. e = fetched_entry t r" for e f
    using inv task by (auto simp: sys_inv_def inv_fetched_def)
  have fresh: "fres s (PendingFill (fnext s)) = Unresolved"
    using inv by (metis sys_inv_def inv_fresh_def fill_id.simps order.refl)
  note move = inv_move [OF inv task] and decide = inv_decide [OF inv task]
  from step show ?thesis
  proof (cases rule: task_step.cases)
    case (read_wait e f)
    with inv have "fres s f = Dropped \<or> (\<exists>j q. owner_at s f j k q \<and> placed q)"
      by (auto simp: sys_inv_def inv_db_def)
    with read_wait wf show ?thesis by (intro move) (auto simp: pend_sub_same)
  next
    case (remove_stale f)
    then show ?thesis by (intro move) (simp_all add: remove_writer.write_wf [OF wf])
  next
    case (fetch_unowned E m e t)
    with fetchD [OF fetch_unowned(3)] wf show ?thesis
      by (intro move) (auto simp: pend_sub_same wf_db_def)
  next
    case (merge_unowned e r)
    then obtain t r0 where "e = fetched_entry t r0" using fe by blast
    with mergeD [OF merge_unowned(3) _ wf] merge_unowned show ?thesis
      by (intro move) auto
  next
    case (insert_vacant f c1 E v)
    note nf = new_fillD [OF insert_vacant(4)]
    have "wf_db c1" "db c1 k = None" using nf wf insert_vacant by (simp_all add: wf_db_def)
    note put = putD [OF insert_vacant(5) this]
    show ?thesis
      using insert_vacant nf put
      by (intro inv_insert [OF inv task, where f = f]) (auto split: option.splits)
  next
    case (insert_occupied f c1)
    with new_fillD [OF insert_occupied(5)] fresh show ?thesis
      by (auto intro!: inv_alloc_drop [OF inv task])
  next
    case (subscribed E s' f)
    with subscribeD [OF subscribed(3)] wf show ?thesis
      by (intro move) (auto simp: pend_sub_same wf_db_def)
  next
    case (subscribe_failed E f)
    with subscribeD [OF subscribe_failed(3)] wf show ?thesis
      by (intro move) (auto simp: pend_sub_same wf_db_def)
  next
    case (failed_removed f)
    with removeD [OF failed_removed(3) wf] removed_gone [OF failed_removed(3)] show ?thesis
      by (intro move) auto
  next
    case (failed_gone f c2)
    with removeD [OF failed_gone(4) wf] unresolved show ?thesis
      by (intro decide [where f = f and X = Dropped]) auto
  next
    case (fetch_unsubscribed E e t c2 f)
    with fetchD [OF fetch_unsubscribed(4)] wf unresolved show ?thesis
      by (intro decide [where f = f and X = "Resolved (delegation e)"])
         (auto simp: wf_db_def pend_sub_same)
  next
    case (owner_yes f m)
    with claimD [OF owner_yes(3) wf] show ?thesis by (intro move) auto
  next
    case (owner_no f m c2)
    with claimD [OF owner_no(4) wf] unresolved show ?thesis
      by (intro decide [where f = f and X = Dropped]) auto
  next
    case (fill_fetched E m e t f)
    with fetchD [OF fill_fetched(3)] wf show ?thesis
      by (intro move) (auto simp: pend_sub_same wf_db_def)
  next
    case (merge_owned e f r)
    then obtain t r0 where "e = fetched_entry t r0" using fe by blast
    with mergeD [OF merge_owned(3) _ wf] merge_owned show ?thesis by (intro move) auto
  next
    case (publish f r)
    then show ?thesis
      by (intro move) (auto simp: release_writer.write_wf [OF wf] dest: released_not_held)
  next
    case (send f r)
    with wf unresolved show ?thesis
      by (intro decide [where f = f and X = "Resolved r"]) (auto simp: pend_sub_same)
  qed (use wf in \<open>intro move; auto simp: pend_sub_same wf_db_def\<close>)+
qed


lemma inv_spawn:
  assumes inv: "sys_inv s" and free: "tasks s i = None"
  shows "sys_inv (s\<lparr>tasks := (tasks s)(i \<mapsto> (k, Start))\<rparr>)" (is "sys_inv ?t")
proof -
  note inv' = inv [unfolded sys_inv_def]
  have owner: "owner_at ?t f j l q \<longleftrightarrow> owner_at s f j l q" for f j l q
    using free by (auto simp: owner_at_def)
  have "inv_db ?t" "inv_owner ?t"
    using inv' unfolding inv_db_def inv_owner_def owner by simp_all
  moreover have "inv_wait ?t" "inv_fresh ?t" "inv_fetched ?t"
    using inv' unfolding inv_wait_def inv_fresh_def inv_fetched_def owner by auto
  ultimately show ?thesis by (simp add: sys_inv_def)
qed

lemma inv_update: "sys_inv s \<Longrightarrow> sys_inv (s\<lparr>sys_cache := updater_msg m (sys_cache s)\<rparr>)"
proof -
  let ?t = "s\<lparr>sys_cache := updater_msg m (sys_cache s)\<rparr>"
  assume inv: "sys_inv s"
  note inv' = inv [unfolded sys_inv_def]
  have owner: "owner_at ?t f j l q \<longleftrightarrow> owner_at s f j l q" for f j l q by (simp add: owner_at_def)
  have "inv_db ?t"
    unfolding inv_db_def owner
  proof (intro conjI allI impI)
    fix k e f
    assume "db (sys_cache ?t) k = Some e" "pending e = Some f"
    with pend_sub_writers(5) [of m "sys_cache s"]
    have "\<exists>e0. db (sys_cache s) k = Some e0 \<and> pending e0 = Some f"
      unfolding pend_sub_def by simp
    with inv' show "fill_id f < fnext ?t" "fres ?t f = Dropped \<or> (\<exists>i p. owner_at s f i k p \<and> placed p)"
      by (auto simp: inv_db_def)
  next
    show "wf_db (sys_cache ?t)"
      using inv' stream_writer.write_wf by (simp add: inv_db_def)
  qed
  with inv' show ?thesis
    by (simp add: sys_inv_def inv_owner_def inv_wait_def inv_fresh_def inv_fetched_def owner)
qed

lemma inv_cancel:
  assumes inv: "sys_inv s" and task: "tasks s i = Some (k, p)"
  shows "sys_inv (s\<lparr>sys_cache := drop_owned p (sys_cache s), tasks := (tasks s)(i \<mapsto> (k, Cancelled))\<rparr>)"
proof -
  have wf: "wf_db (sys_cache s)" using inv by (simp add: sys_inv_def inv_db_def)
  show ?thesis
  proof (cases "owned p")
    case None
    then show ?thesis
      using wf by (intro inv_move [OF inv task]) (simp_all add: drop_owned_def pend_sub_same)
  next
    case (Some f)
    moreover have "fres s f = Unresolved"
      using inv_ownerD [OF inv, of f i k p] task Some by (simp add: owner_at_def)
    ultimately show ?thesis
      using wf by (intro inv_decide [OF inv task Some, where X = Dropped])
        (auto simp: drop_owned_def pend_sub_same)
  qed
qed

lemma sys_step_inv: "sys_inv s \<Longrightarrow> sys_step s t \<Longrightarrow> sys_inv t"
  by (erule sys_stepE) (auto intro: inv_spawn task_step_inv inv_cancel inv_update)

interpretation delegation_system: step_invariant sys_init sys_step sys_inv
  by standard (auto intro: sys_inv_init sys_step_inv)


section \<open>What holds in every reachable state\<close>

text \<open>C2: However callers, cancellations and stream messages interleave, a pending fill is owned by at most
  one caller, the owner's fill is undecided, an entry of the map that shows a pending fill is unfilled
  and shows one that is undecided or cancelled, never one that was resolved, and unfilled entries
  carry no record.\<close>

theorem single_flight:
  assumes "reachable sys_init sys_step s"
  shows "(\<forall>f i j k l p q. owner_at s f i k p \<longrightarrow> owner_at s f j l q \<longrightarrow> i = j)
    \<and> (\<forall>f i k p. owner_at s f i k p \<longrightarrow> fres s f = Unresolved)
    \<and> (\<forall>k e. db (sys_cache s) k = Some e \<longrightarrow>
         (slot e = 0 \<longrightarrow> delegation e = None)
         \<and> (\<forall>f. pending e = Some f \<longrightarrow> slot e = 0 \<and> (\<forall>r. fres s f \<noteq> Resolved r)))"
proof -
  have inv: "sys_inv s" using assms by (rule delegation_system.inv_reachable)
  have "\<forall>r. fres s f \<noteq> Resolved r" if "db (sys_cache s) k = Some e" "pending e = Some f" for k e f
  proof -
    from that inv have "fres s f = Dropped \<or> (\<exists>i p. owner_at s f i k p)"
      unfolding sys_inv_def inv_db_def by blast
    with inv_ownerD [OF inv] show ?thesis by fastforce
  qed
  moreover have "wf_entry e" if "db (sys_cache s) k = Some e" for k e
    using that inv by (auto simp: sys_inv_def inv_db_def wf_db_def)
  ultimately show ?thesis
    using inv_ownerD [OF inv] inv_owner_unique [OF inv]
    by (auto simp: wf_entry_def split: if_splits) (metis option.distinct(1))+
qed



section \<open>Executable steps\<close>

text \<open>The step of a caller when the outside world answers as in \<open>E\<close>; \<open>None\<close> when it has to wait or is
  finished.\<close>

fun task_exec :: "deleg_env \<Rightarrow> pubkey \<Rightarrow> pc \<Rightarrow> delegations_cache \<Rightarrow> (pc \<times> delegations_cache) option" where
  "task_exec E pda Start c =
     Some (case db c pda of
             None \<Rightarrow> InsertPlaceholder
           | Some e \<Rightarrow>
               if slot e \<noteq> 0 then Done (delegation e)
               else (case pending e of
                       Some f \<Rightarrow> AwaitFill f
                     | None \<Rightarrow> FetchUnowned (pending_min_context_slot e)), c)"
| "task_exec E pda (AwaitFill f) c =
     (case result_of f (fill_table c) of
        Unresolved \<Rightarrow> None
      | Resolved r \<Rightarrow> Some (Done r, c)
      | Dropped \<Rightarrow> Some (RemoveStale f, c))"
| "task_exec E pda (RemoveStale f) c = Some (Start, snd (remove_pending_fill pda f c))"
| "task_exec E pda (FetchUnowned m) c =
     (case fetch E pda m c of (e, _, c') \<Rightarrow> Some (MergeUnowned e, c'))"
| "task_exec E pda (MergeUnowned e) c =
     (case merge_fetched pda e None c of (r, c') \<Rightarrow> Some (Done r, c'))"
| "task_exec E pda InsertPlaceholder c =
     (case new_fill c of
        (f, c1) \<Rightarrow>
          if db c pda = None
          then (case put_entry E pda (placeholder f) c1 of
                  (v, c2) \<Rightarrow> Some (case v of None \<Rightarrow> Subscribing f | Some k \<Rightarrow> Evicting f k, c2))
          else Some (Start, drop_fill f c1))"
| "task_exec E pda (Evicting f k) c = Some (Subscribing f, unsubscribe k c)"
| "task_exec E pda (Subscribing f) c =
     (case subscribe E pda c of
        (Some s, c') \<Rightarrow> Some (CheckOwner f (checked_sub s MIN_CONTEXT_SLOT_ROLLBACK), c')
      | (None, c') \<Rightarrow> Some (SubscribeFailed f, c'))"
| "task_exec E pda (SubscribeFailed f) c =
     (case remove_pending_fill pda f c of
        (True, c') \<Rightarrow> Some (FetchUnsubscribed f, c')
      | (False, c') \<Rightarrow> Some (Start, drop_fill f c'))"
| "task_exec E pda (FetchUnsubscribed f) c =
     (case fetch E pda None c of
        (e, _, c') \<Rightarrow> Some (Done (delegation e), send_fill f (delegation e) c'))"
| "task_exec E pda (CheckOwner f m) c =
     (case claim_fill pda f m c of
        (True, c') \<Rightarrow> Some (Filling f m, c')
      | (False, c') \<Rightarrow> Some (Start, drop_fill f c'))"
| "task_exec E pda (Filling f m) c =
     (case stream_fill_ready pda c of
        Some r \<Rightarrow> Some (Publishing f r, c)
      | None \<Rightarrow> (case fetch E pda m c of (e, _, c') \<Rightarrow> Some (MergeOwned f e, c')))"
| "task_exec E pda (MergeOwned f e) c =
     (case merge_fetched pda e (Some f) c of (r, c') \<Rightarrow> Some (Publishing f r, c'))"
| "task_exec E pda (Publishing f r) c = Some (Sending f r, release_fill pda f c)"
| "task_exec E pda (Sending f r) c = Some (Done r, send_fill f r c)"
| "task_exec E pda (Done r) c = None"
| "task_exec E pda Cancelled c = None"

lemma insert_vacant_None:
  "\<lbrakk>db c pda = None; new_fill c = (f, c1); put_entry E pda (placeholder f) c1 = (None, c2)\<rbrakk>
    \<Longrightarrow> task_step pda InsertPlaceholder c (Subscribing f) c2"
  using task_step.insert_vacant [of c pda f c1 E None c2] by simp

lemma insert_vacant_Some:
  "\<lbrakk>db c pda = None; new_fill c = (f, c1); put_entry E pda (placeholder f) c1 = (Some k, c2)\<rbrakk>
    \<Longrightarrow> task_step pda InsertPlaceholder c (Evicting f k) c2"
  using task_step.insert_vacant [of c pda f c1 E "Some k" c2] by simp

lemma task_exec_sound: "task_exec E pda p c = Some (p', c') \<Longrightarrow> task_step pda p c p' c'"
  by (cases p)
     (auto split: option.splits fill_state.splits if_splits prod.splits bool.splits
        intro: task_step.intros insert_vacant_None insert_vacant_Some)

lemma task_exec_total:
  "\<not> finished p \<Longrightarrow> awaited p = None \<Longrightarrow> \<exists>p' c'. task_exec E pda p c = Some (p', c')"
  by (cases p) (auto split: option.splits if_splits prod.splits bool.splits)

text \<open>C7: In every reachable state every unfinished caller can take a step, or it waits for a fill whose
  owner is another unfinished caller that can take a step: nobody waits for a fill that no one will
  decide, whatever was cancelled, evicted or cleared before.\<close>

theorem no_caller_stuck:
  assumes "reachable sys_init sys_step s" and "tasks s i = Some (k, p)" and "\<not> finished p"
  shows "(\<exists>p' c'. task_step k p (sys_cache s) p' c')
    \<or> (\<exists>f j l q p' c'. p = AwaitFill f \<and> j \<noteq> i \<and> owner_at s f j l q
          \<and> task_step l q (sys_cache s) p' c')"
proof (cases "awaited p")
  case None
  with assms(3) task_exec_total task_exec_sound show ?thesis by blast
next
  case (Some f)
  then have p: "p = AwaitFill f" by (cases p) auto
  have "fres s f \<noteq> Unresolved \<or> (\<exists>j l q. owner_at s f j l q)"
    using delegation_system.inv_reachable [OF assms(1)] assms(2) Some
    by (auto simp: sys_inv_def inv_wait_def)
  then show ?thesis
  proof
    assume "fres s f \<noteq> Unresolved"
    then show ?thesis
      unfolding p by (cases "fres s f") (auto intro: task_step.intros)
  next
    assume "\<exists>j l q. owner_at s f j l q"
    then obtain j l q where q: "owner_at s f j l q" by blast
    then have "\<not> finished q" "awaited q = None" by (cases q; auto simp: owner_at_def)+
    then obtain p' c' where "task_step l q (sys_cache s) p' c'"
      using task_exec_total task_exec_sound by blast
    moreover have "j \<noteq> i" using q assms(2) p by (auto simp: owner_at_def)
    ultimately show ?thesis using p q by blast
  qed
qed

section \<open>Schedules\<close>

text \<open>A schedule fixes who moves next and what the outside world answers; an event that is not enabled
  changes nothing.\<close>

datatype sched_event =
    Spawn nat pubkey
  | Run nat deleg_env
  | Cancel nat
  | Stream account_update

fun exec_event :: "sched_event \<Rightarrow> system \<Rightarrow> system" where
  "exec_event (Spawn i pda) s =
     (if tasks s i = None then s\<lparr>tasks := (tasks s)(i \<mapsto> (pda, Start))\<rparr> else s)"
| "exec_event (Run i E) s =
     (case tasks s i of
        None \<Rightarrow> s
      | Some (pda, p) \<Rightarrow>
          (case task_exec E pda p (sys_cache s) of
             None \<Rightarrow> s
           | Some (p', c') \<Rightarrow> s\<lparr>sys_cache := c', tasks := (tasks s)(i \<mapsto> (pda, p'))\<rparr>))"
| "exec_event (Cancel i) s =
     (case tasks s i of
        None \<Rightarrow> s
      | Some (pda, p) \<Rightarrow>
          if finished p then s
          else s\<lparr>sys_cache := drop_owned p (sys_cache s), tasks := (tasks s)(i \<mapsto> (pda, Cancelled))\<rparr>)"
| "exec_event (Stream m) s = s\<lparr>sys_cache := updater_msg m (sys_cache s)\<rparr>"

definition run_schedule :: "sched_event list \<Rightarrow> system \<Rightarrow> system" where
  "run_schedule es s = fold exec_event es s"

lemma exec_event_step: "exec_event e s = s \<or> sys_step s (exec_event e s)"
  by (cases e) (auto split: option.splits intro: sys_step.intros task_exec_sound)

lemma run_schedule_reachable:
  "reachable sys_init sys_step s \<Longrightarrow> reachable sys_init sys_step (run_schedule es s)"
proof (induction es arbitrary: s)
  case (Cons e es)
  have "reachable sys_init sys_step (exec_event e s)"
    using exec_event_step [of e s] Cons.prems by (metis reachable.intros(2))
  then show ?case using Cons.IH by (simp add: run_schedule_def)
qed (simp add: run_schedule_def)

definition sample_system :: system where
  "sample_system = \<lparr>sys_cache = sample_cache, tasks = Map.empty\<rparr>"

lemma sample_system_reachable: "reachable sys_init sys_step (run_schedule es sample_system)"
  by (intro run_schedule_reachable reachable.intros(1))
     (simp add: sys_init_def sample_system_def sample_cache_def delegations_new_def)

text \<open>Two callers ask for the same account: the first has inserted its placeholder, the second waits.\<close>

definition waiting_system :: system where
  "waiting_system = run_schedule
     [Spawn 0 (Pubkey [7]), Spawn 1 (Pubkey [7]), Run 0 sample_deleg_env, Run 0 sample_deleg_env,
      Run 1 sample_deleg_env] sample_system"

lemma waiting_system_tasks:
  "tasks waiting_system 0 = Some (Pubkey [7], Subscribing (PendingFill 0))"
  "tasks waiting_system (Suc 0) = Some (Pubkey [7], AwaitFill (PendingFill 0))"
  "db (sys_cache waiting_system) (Pubkey [7]) = Some (placeholder (PendingFill 0))"
  by (simp_all add: waiting_system_def run_schedule_def sample_system_def sample_cache_def
      delegations_new_def sample_deleg_env_def new_fill_def fill_new_def fills_init_def put_entry_def
      placeholder_def)

theorem single_flight_witness:
  "fres waiting_system (PendingFill 0) = Unresolved
     \<and> slot (placeholder (PendingFill 0)) = 0
     \<and> \<not> (\<exists>l q. owner_at waiting_system (PendingFill 0) 1 l q)"
proof -
  have "owner_at waiting_system (PendingFill 0) 0 (Pubkey [7]) (Subscribing (PendingFill 0))"
    by (simp add: owner_at_def waiting_system_tasks)
  moreover have "reachable sys_init sys_step waiting_system"
    unfolding waiting_system_def by (rule sample_system_reachable)
  ultimately show ?thesis
    using single_flight [of waiting_system] waiting_system_tasks(3)
    by (metis delegation_entry.select_convs(4) placeholder_def zero_neq_one)
qed

theorem no_caller_stuck_witness:
  "\<exists>j l q p' c'. j \<noteq> Suc 0 \<and> owner_at waiting_system (PendingFill 0) j l q
     \<and> task_step l q (sys_cache waiting_system) p' c'"
proof -
  have reach: "reachable sys_init sys_step waiting_system"
    unfolding waiting_system_def by (rule sample_system_reachable)
  have "fres waiting_system (PendingFill 0) = Unresolved"
    using delegation_system.inv_reachable [OF reach] waiting_system_tasks(1)
    by (auto dest!: inv_ownerD [where i = 0] simp: owner_at_def)
  then have "\<not> task_step (Pubkey [7]) (AwaitFill (PendingFill 0)) (sys_cache waiting_system) p' c'" for p' c'
    by (simp add: task_step_AwaitFill)
  with no_caller_stuck [OF reach waiting_system_tasks(2)] show ?thesis by auto
qed

section \<open>Answers and the cache\<close>

text \<open>The record a caller is going to return, once it is fixed.\<close>

fun answer :: "pc \<Rightarrow> parsed_delegation_record option option" where
  "answer (Publishing f r) = Some r"
| "answer (Sending f r) = Some r"
| "answer (Done r) = Some r"
| "answer _ = None"

text \<open>What fixed it: the fill it waited for, the fill it resolves without an entry, or the entry.\<close>

fun answer_source :: "pubkey \<Rightarrow> pc \<Rightarrow> parsed_delegation_record option \<Rightarrow> delegations_cache \<Rightarrow> bool" where
  "answer_source k (AwaitFill f) r c \<longleftrightarrow> result_of f (fill_table c) = Resolved r"
| "answer_source k (FetchUnsubscribed f) r c \<longleftrightarrow> result_of f (fill_table c) = Resolved r"
| "answer_source k p r c \<longleftrightarrow> (\<forall>e. db c k = Some e \<longrightarrow> slot e \<noteq> 0 \<longrightarrow> delegation e = r)"

lemma merge_answer:
  assumes "merge_fetched pda (fetched_entry t r0) fill c = (r, c')" and "wf_db c"
    and "db c' pda = Some e" and "slot e \<noteq> 0"
  shows "delegation e = r"
  using assms
  by (fastforce simp: merge_fetched_def fetched_entry_def wf_db_def wf_entry_def
      split: option.splits if_splits)

lemma task_step_answer:
  assumes "sys_inv s" and "tasks s i = Some (k, p)" and "task_step k p (sys_cache s) p' c'"
    and "answer p = None" and "answer p' = Some r"
  shows "answer_source k p r c'"
proof -
  have wf: "wf_db (sys_cache s)" using assms(1) by (simp add: sys_inv_def inv_db_def)
  have unresolved: "owned p = Some f \<Longrightarrow> fres s f = Unresolved" for f
    using inv_ownerD [OF assms(1), of f i k p] assms(2) by (simp add: owner_at_def)
  have fe: "p = MergeUnowned e \<or> p = MergeOwned f e \<Longrightarrow> \<exists>t r. e = fetched_entry t r" for e f
    using assms(1,2) by (auto simp: sys_inv_def inv_fetched_def)
  from assms(3) show ?thesis
  proof cases
    case (merge_unowned e r')
    with fe obtain t r0 where "e = fetched_entry t r0" by blast
    with merge_unowned assms(5) merge_answer [OF _ wf] show ?thesis by auto
  next
    case (merge_owned e f r')
    with fe obtain t r0 where "e = fetched_entry t r0" by blast
    with merge_owned assms(5) merge_answer [OF _ wf] show ?thesis by auto
  next
    case (fetch_unsubscribed E e t c2 f)
    with fetchD [OF fetch_unsubscribed(4)] unresolved assms(5) show ?thesis by simp
  next
    case (insert_vacant f c1 E v)
    with assms(5) show ?thesis by (auto split: option.splits)
  next
    case (fill_streamed r' f m)
    with assms(5) show ?thesis by (auto simp: stream_fill_ready_def split: option.splits if_splits)
  qed (use assms(4,5) in auto)
qed

text \<open>A step decides a fill only if its caller owns it.\<close>

lemma task_step_resolved:
  assumes "task_step k p c p' c'" and "result_of f (fill_table c) = Resolved r"
  shows "result_of f (fill_table c') = Resolved r"
  using assms
proof cases
  case (insert_vacant g c1 E v)
  have "result_of f (fill_table c1) = Resolved r"
    using new_fillD [OF insert_vacant(4)] assms(2) by simp
  then show ?thesis
    using insert_vacant fill_table_writers(2) [of E k "placeholder g" c1] by simp
next
  case (insert_occupied g c1)
  then show ?thesis using new_fillD [OF insert_occupied(5)] assms(2) by auto
next
  case (fetch_unsubscribed E e t c2 g)
  then show ?thesis using fetchD [OF fetch_unsubscribed(4)] assms(2) by auto
qed (use fill_table_writers in \<open>fastforce dest: arg_cong [where f = snd] fetchD subscribeD\<close>)+

lemma task_step_owner_done:
  assumes "sys_inv s" and "tasks s i = Some (k, p)" and "task_step k p (sys_cache s) (Done r) c'"
    and "owned p = Some f"
  shows "result_of f (fill_table c') = Resolved r"
proof -
  have "fres s f = Unresolved"
    using inv_ownerD [OF assms(1), of f i k p] assms(2,4) by (simp add: owner_at_def)
  from assms(3) this show ?thesis
    by cases (use assms(4) in \<open>auto dest: fetchD split: option.splits\<close>)
qed

text \<open>C22: In every interleaving, at the step that fixes what a reader returns there are three cases.  A
  reader that waited for another reader's fetch returns what that fill was resolved to.  A reader that
  could not subscribe resolves its own fill with what it returns.  Every other reader returns the record
  of the account's entry, if that entry is then filled.  The owner of a fill that returns has resolved it
  with the record it returns, and no later step changes what a fill was resolved to, so the readers of
  one fill return one record.\<close>

theorem answers_agree_with_cache:
  assumes "reachable sys_init sys_step s" and "sys_step s t"
  shows "(\<forall>i k p p' r. tasks s i = Some (k, p) \<longrightarrow> tasks t i = Some (k, p')
            \<longrightarrow> answer p = None \<longrightarrow> answer p' = Some r \<longrightarrow> answer_source k p r (sys_cache t))
    \<and> (\<forall>i k p f r. tasks s i = Some (k, p) \<longrightarrow> owned p = Some f \<longrightarrow> tasks t i = Some (k, Done r)
            \<longrightarrow> fres t f = Resolved r)
    \<and> (\<forall>f r. fres s f = Resolved r \<longrightarrow> fres t f = Resolved r)"
proof -
  have inv: "sys_inv s" using assms(1) by (rule delegation_system.inv_reachable)
  from assms(2) show ?thesis
  proof cases
    case (sys_task i pda p p' c')
    note step = sys_task(3)
    have "owned q = Some f \<Longrightarrow> q \<noteq> Done r" for q f r by (cases q) auto
    with sys_task task_step_answer [OF inv sys_task(2) step] task_step_owner_done [OF inv sys_task(2)]
      task_step_resolved [OF step] show ?thesis
      by (auto split: if_splits)
  next
    case (sys_cancel i pda p)
    have "owned q = Some f \<Longrightarrow> q \<noteq> Done r" for q f r by (cases q) auto
    with sys_cancel show ?thesis
      by (auto simp: drop_owned_def split: option.splits if_splits)
  next
    case (sys_update m)
    have "owned q = Some f \<Longrightarrow> q \<noteq> Done r" for q f r by (cases q) auto
    with sys_update show ?thesis by (auto simp del: updater_msg.simps)
  next
    case (sys_spawn i pda)
    have "owned q = Some f \<Longrightarrow> q \<noteq> Done r" for q f r by (cases q) auto
    with sys_spawn show ?thesis by (auto split: if_splits)
  qed
qed

text \<open>The two readers of \<open>waiting_system\<close> after the first has fetched, published and sent.\<close>

definition shared_system :: system where
  "shared_system = run_schedule
     [Run 0 sample_deleg_env, Run 0 sample_deleg_env, Run 0 sample_deleg_env,
      Run 0 sample_deleg_env, Run 0 sample_deleg_env, Run 0 sample_deleg_env] waiting_system"

lemma waiting_system_cache:
  "sys_cache waiting_system =
     sample_cache\<lparr>db := [Pubkey [7] \<mapsto> placeholder (PendingFill 0)],
                  fill_table := snd (fill_new fills_init)\<rparr>"
  by (simp add: waiting_system_def run_schedule_def sample_system_def sample_cache_def
      delegations_new_def sample_deleg_env_def new_fill_def fill_new_def fills_init_def put_entry_def
      placeholder_def)

lemma sample_fetch_at:
  "fetch sample_deleg_env pda (Some 92) c =
     (fetched_entry 120 (from_bytes (replicate 88 5)), 2,
      c\<lparr>routes := snd (base_chain (routes c)),
        cache_metrics := (if from_bytes (replicate 88 5) = None
                          then metrics_error ''delegation'' (cache_metrics c) else cache_metrics c)\<rparr>)"
  by (simp add: fetch_def split_beta Let_def attempts_list sample_deleg_env_def
      RETRY_BACKOFF_SECONDS_def del: upt_Suc)

lemma sample_subscribe:
  "subscribe sample_deleg_env pda c = (Some 100, c\<lparr>syncer := syncer c @ [SyncSubscribe pda]\<rparr>)"
  by (simp add: subscribe_def sample_deleg_env_def)

lemma shared_system_state:
  "tasks shared_system (Suc 0) = Some (Pubkey [7], AwaitFill (PendingFill 0))"
  "fres shared_system (PendingFill 0) = Resolved (from_bytes (replicate 88 5))"
  by (simp_all add: shared_system_def run_schedule_def waiting_system_tasks
      waiting_system_cache sample_subscribe sample_min_slot sample_fetch_at claim_fill_def placeholder_def
      fetched_entry_def stream_fill_ready_def merge_fetched_def release_fill_def word_gt_0
      fill_new_def fills_init_def result_of.simps)

theorem answers_agree_with_cache_witness:
  "case exec_event (Run 1 sample_deleg_env) shared_system of
     t \<Rightarrow> tasks t 1 = Some (Pubkey [7], Done (from_bytes (replicate 88 5)))
        \<and> answer_source (Pubkey [7]) (AwaitFill (PendingFill 0)) (from_bytes (replicate 88 5)) (sys_cache t)"
proof -
  let ?t = "exec_event (Run 1 sample_deleg_env) shared_system"
  have reach: "reachable sys_init sys_step shared_system"
    unfolding shared_system_def waiting_system_def by (intro run_schedule_reachable sample_system_reachable)
  have fin: "tasks ?t (Suc 0) = Some (Pubkey [7], Done (from_bytes (replicate 88 5)))"
    by (simp add: shared_system_state)
  with shared_system_state(1) have "sys_step shared_system ?t"
    using exec_event_step [of "Run 1 sample_deleg_env" shared_system] by auto
  from answers_agree_with_cache [OF reach this] fin shared_system_state(1)
  have "answer_source (Pubkey [7]) (AwaitFill (PendingFill 0)) (from_bytes (replicate 88 5)) (sys_cache ?t)"
    by fastforce
  with fin show ?thesis by (simp del: exec_event.simps)
qed


section \<open>An interleaving that loses a subscription\<close>

text \<open>The steps of one caller that nobody interrupts, when the outside world answers as in \<open>E\<close>.\<close>

inductive caller_run ::
  "deleg_env \<Rightarrow> pubkey \<Rightarrow> pc \<Rightarrow> delegations_cache \<Rightarrow> pc \<Rightarrow> delegations_cache \<Rightarrow> bool"
  for E :: deleg_env and pda :: pubkey where
  run_done: "caller_run E pda p c p c"
| run_step: "\<lbrakk>task_exec E pda p c = Some (p1, c1); caller_run E pda p1 c1 p2 c2\<rbrakk>
    \<Longrightarrow> caller_run E pda p c p2 c2"

lemma caller_run_schedule:
  assumes "caller_run E pda p c p' c'" and "tasks s i = Some (pda, p)" and "sys_cache s = c"
  shows "\<exists>n. run_schedule (replicate n (Run i E)) s
           = s\<lparr>sys_cache := c', tasks := (tasks s)(i \<mapsto> (pda, p'))\<rparr>"
  using assms
proof (induction arbitrary: s rule: caller_run.induct)
  case (run_done p c)
  then have "run_schedule (replicate 0 (Run i E)) s = s\<lparr>sys_cache := c, tasks := (tasks s)(i \<mapsto> (pda, p))\<rparr>"
    by (simp add: run_schedule_def map_upd_triv)
  then show ?case by blast
next
  case (run_step p c p1 c1 p2 c2)
  let ?t = "s\<lparr>sys_cache := c1, tasks := (tasks s)(i \<mapsto> (pda, p1))\<rparr>"
  have "tasks ?t i = Some (pda, p1)" "sys_cache ?t = c1" by simp_all
  from run_step.IH [OF this] obtain n where "run_schedule (replicate n (Run i E)) ?t
      = ?t\<lparr>sys_cache := c2, tasks := (tasks ?t)(i \<mapsto> (pda, p2))\<rparr>" by blast
  moreover have "exec_event (Run i E) s = ?t" using run_step.hyps(1) run_step.prems by simp
  ultimately have "run_schedule (replicate (Suc n) (Run i E)) s
      = s\<lparr>sys_cache := c2, tasks := (tasks s)(i \<mapsto> (pda, p2))\<rparr>"
    by (simp add: run_schedule_def del: exec_event.simps fun_upd_apply)
  then show ?case by blast
qed

lemma caller_run_insert:
  assumes "db c pda = None" and "new_fill c = (f, c1)"
    and "caller_run E pda (Subscribing f) (insert_new E pda (placeholder f) c1) p' c'"
  shows "caller_run E pda Start c p' c'"
proof -
  obtain v c2 where put: "put_entry E pda (placeholder f) c1 = (v, c2)" by fastforce
  have "caller_run E pda InsertPlaceholder c p' c'"
  proof (cases v)
    case None
    with put assms show ?thesis by (auto simp: insert_new_def intro: run_step)
  next
    case (Some k)
    with put assms have "task_exec E pda InsertPlaceholder c = Some (Evicting f k, c2)" by simp
    with put assms(3) Some show ?thesis
      by (auto simp: insert_new_def intro!: run_step [where p = "Evicting f k"] intro: run_step)
  qed
  with assms(1) show ?thesis by (auto intro: run_step)
qed

lemma caller_run_miss:
  assumes "db c pda = None" and "sync_subscribe E pda = Some s"
  shows "caller_run E pda Start c (Done (fst (get_record_loop E pda c))) (snd (get_record_loop E pda c))"
proof -
  obtain f c1 where f: "new_fill c = (f, c1)" by fastforce
  let ?ins = "insert_new E pda (placeholder f) c1" and ?m = "checked_sub s MIN_CONTEXT_SLOT_ROLLBACK"
  obtain c2 where sub: "subscribe E pda ?ins = (Some s, c2)"
    using assms(2) by (simp add: subscribe_def)
  have "fst (claim_fill pda f ?m c2)"
    using db_after_subscribe [OF sub [symmetric]] by (rule claim_fill_placeholder)
  then obtain c3 where claim: "claim_fill pda f ?m c2 = (True, c3)" by (metis prod.collapse)
  then have c3: "claimed_state E pda ?m c = c3" by (simp add: claimed_state_def f sub)
  have idle: "stream_fill_ready pda c3 = None"
    using db_claimed_state [of E pda ?m c] by (simp add: c3 stream_fill_ready_def placeholder_def)
  obtain new t c4 where fetched: "fetch E pda ?m c3 = (new, t, c4)" by (metis prod_cases3)
  obtain r c5 where merged: "merge_fetched pda new (Some f) c4 = (r, c5)" by fastforce
  have "get_record_loop E pda c = (r, send_fill f r (release_fill pda f c5))"
    by (simp add: get_record_loop_miss [OF assms] f c3 fetched merged Let_def)
  moreover have "caller_run E pda (Subscribing f) ?ins (Done r) (send_fill f r (release_fill pda f c5))"
    by (rule run_step, simp add: sub, rule run_step, simp add: claim,
        rule run_step, simp add: idle fetched, rule run_step, simp add: merged,
        rule run_step, simp, rule run_step, simp, rule run_done)
  ultimately show ?thesis using caller_run_insert [OF assms(1) f] by simp
qed

text \<open>What the hash cache is documented to do: it evicts a stored entry, and only when it holds as many
  entries as its capacity.\<close>

definition evicts_when_full :: "deleg_env \<Rightarrow> nat \<Rightarrow> bool" where
  "evicts_when_full E n \<longleftrightarrow> (\<forall>k m v. evict E k m = Some v \<longrightarrow> m v \<noteq> None \<and> n \<le> card (dom m))"

text \<open>The chain answers the first request for an account, at a slot other than 0.\<close>

definition answers_at_once :: "deleg_env \<Rightarrow> pubkey \<Rightarrow> bool" where
  "answers_at_once E v \<longleftrightarrow> (\<forall>client m. \<exists>t d. account_at E client v m 0 = Inr (t, d) \<and> t \<noteq> 0)"

lemma fetch_at_once:
  assumes "answers_at_once E v"
  shows "\<exists>t r. fst (fetch E v m c) = fetched_entry t r \<and> t \<noteq> 0"
proof -
  obtain t d where "account_at E (client (fst (base_chain (routes c)))) v m 0 = Inr (t, d)" "t \<noteq> 0"
    using assms unfolding answers_at_once_def by blast
  then show ?thesis
    by (cases d) (auto simp: fetch_def split_beta Let_def attempts_list simp del: upt_Suc)
qed

lemma refill:
  assumes "db c v = None" and "sync_subscribe E v = Some s" and "answers_at_once E v"
  shows "\<exists>e. db (snd (get_record_loop E v c)) v = Some e \<and> slot e \<noteq> 0 \<and> pending e = None
           \<and> fst (get_record_loop E v c) = delegation e"
proof -
  let ?m = "checked_sub s MIN_CONTEXT_SLOT_ROLLBACK"
  let ?c3 = "claimed_state E v ?m c"
  obtain t r where "fst (fetch E v ?m ?c3) = fetched_entry t r" "t \<noteq> 0"
    using fetch_at_once [OF assms(3)] by blast
  then show ?thesis
    using db_claimed_state [of E v ?m c]
    by (simp add: get_record_loop_miss [OF assms(1,2)] Let_def merge_fetched_def
      placeholder_def fetched_entry_def release_fill_def word_gt_0)
qed

text \<open>C36: The unsubscription of an evicted account can be sent after another reader has already cached
  and subscribed that account again.  Whenever storing \<open>k\<close> makes the full cache evict \<open>v\<close>, this
  schedule is possible: the reader of \<open>k\<close> stores its placeholder; a reader of \<open>v\<close> then runs from its
  first line to its return; the reader of \<open>k\<close> goes on.  After it \<open>v\<close> is cached, filled with the record its
  reader returned, and the last request the sync service got is to unsubscribe \<open>v\<close>.\<close>

theorem eviction_race_loses_subscription:
  assumes "evicts_when_full E (snd (db_capacity (sys_cache s)))"
    and "db (sys_cache s) k = None" and "evict E k (db (sys_cache s)) = Some v"
    and "sync_subscribe E v = Some sub" and "answers_at_once E v"
    and "tasks s i = None" and "tasks s j = None" and "i \<noteq> j"
  shows "\<exists>n e. case run_schedule ([Spawn i k, Run i E, Run i E, Spawn j v] @ replicate n (Run j E)
                                    @ [Run i E]) s of
     t \<Rightarrow> tasks t j = Some (v, Done (delegation e))
        \<and> db (sys_cache t) v = Some e \<and> slot e \<noteq> 0 \<and> pending e = None
        \<and> last (syncer (sys_cache t)) = SyncUnsubscribe v"
proof -
  let ?c = "sys_cache s"
  obtain f c1 where f: "new_fill ?c = (f, c1)" by fastforce
  have v: "db ?c v \<noteq> None" using assms(1,3) unfolding evicts_when_full_def by blast
  then have "k \<noteq> v" using assms(2) by blast
  obtain c2 where put: "put_entry E k (placeholder f) c1 = (Some v, c2)" and gone: "db c2 v = None"
    using f assms(2,3) v \<open>k \<noteq> v\<close> db_new_fill [of ?c] by (simp add: put_entry_def)
  let ?r = "get_record_loop E v c2"
  let ?s2 = "s\<lparr>sys_cache := c2, tasks := (tasks s)(i \<mapsto> (k, Evicting f v), j \<mapsto> (v, Start))\<rparr>"
  have s2: "run_schedule [Spawn i k, Run i E, Run i E, Spawn j v] s = ?s2"
    using assms(2,6-8) f put by (simp add: run_schedule_def fun_upd_twist)
  obtain n where "run_schedule (replicate n (Run j E)) ?s2
      = ?s2\<lparr>sys_cache := snd ?r, tasks := (tasks ?s2)(j \<mapsto> (v, Done (fst ?r)))\<rparr>"
    using caller_run_schedule [OF caller_run_miss [OF gone assms(4)], of ?s2 j] by auto
  then have run: "run_schedule ([Spawn i k, Run i E, Run i E, Spawn j v] @ replicate n (Run j E)
                                    @ [Run i E]) s =
      ?s2\<lparr>sys_cache := unsubscribe v (snd ?r),
         tasks := (tasks s)(i \<mapsto> (k, Subscribing f), j \<mapsto> (v, Done (fst ?r)))\<rparr>"
    using s2 assms(8) by (simp add: run_schedule_def fun_upd_twist)
  obtain e where "db (snd ?r) v = Some e" "slot e \<noteq> 0" "pending e = None" "fst ?r = delegation e"
    using refill [OF gone assms(4,5)] by blast
  then show ?thesis
    by (intro exI [of _ n] exI [of _ e]) (simp only: run, simp add: unsubscribe_def)
qed

text \<open>A cache of capacity 64 that is full, and a cache that evicts the first of those accounts it still
  holds when it is full.\<close>

definition full_keys :: "pubkey list" where
  "full_keys = map (\<lambda>i. Pubkey [of_nat i]) [0..<64]"

definition full_system :: system where
  "full_system =
     \<lparr>sys_cache = (delegations_new sample_table 64 metrics_new)
        \<lparr>db := map_of (map (\<lambda>key. (key, fetched_entry 120 None)) full_keys)\<rparr>, tasks = Map.empty\<rparr>"

definition full_env :: deleg_env where
  "full_env = sample_deleg_env\<lparr>
     account_at := (\<lambda>_ _ _ _. Inr (130, None)),
     evict := (\<lambda>_ m. if card (dom m) < 64 then None else find (\<lambda>v. m v \<noteq> None) full_keys)\<rparr>"

lemma distinct_full_keys: "distinct full_keys"
proof -
  have "inj_on (\<lambda>i. Pubkey [of_nat i]) {0..<64}"
    by (auto simp: inj_on_def word_of_nat_eq_iff take_bit_eq_mod)
  then show ?thesis by (simp add: full_keys_def distinct_map)
qed

lemma full_system_card: "card (dom (db (sys_cache full_system))) = 64"
proof -
  have "dom (db (sys_cache full_system)) = set full_keys"
    by (simp add: full_system_def dom_map_of_conv_image_fst image_image)
  then show ?thesis
    using distinct_card [OF distinct_full_keys] by (simp add: full_keys_def)
qed

lemma full_env_evicts: "evicts_when_full full_env 64"
  by (auto simp: evicts_when_full_def full_env_def find_Some_iff split: if_splits)

theorem eviction_race_loses_subscription_witness:
  "snd (db_capacity (sys_cache full_system)) = 64 \<and> card (dom (db (sys_cache full_system))) = 64
   \<and> (\<exists>n e. case run_schedule ([Spawn 0 (Pubkey [77]), Run 0 full_env, Run 0 full_env,
                                 Spawn 1 (Pubkey [0])] @ replicate n (Run 1 full_env)
                                 @ [Run 0 full_env]) full_system of
       t \<Rightarrow> tasks t 1 = Some (Pubkey [0], Done (delegation e))
          \<and> db (sys_cache t) (Pubkey [0]) = Some e \<and> slot e \<noteq> 0 \<and> pending e = None
          \<and> last (syncer (sys_cache t)) = SyncUnsubscribe (Pubkey [0]))"
proof -
  have cap: "snd (db_capacity (sys_cache full_system)) = 64"
    by (simp add: full_system_def delegations_new_def)
  have dom: "db (sys_cache full_system) key \<noteq> None \<longleftrightarrow> key \<in> set full_keys" for key
    by (simp add: full_system_def map_of_eq_None_iff image_image)
  have keys: "full_keys = Pubkey [0] # map (\<lambda>i. Pubkey [of_nat i]) [1..<64]"
    by (simp add: full_keys_def upt_conv_Cons)
  have "(of_nat i :: u8) \<noteq> 77" if "i < 64" for i
    using that word_of_nat_eq_iff [of i 77, where ?'a = 8] by (simp add: take_bit_eq_mod)
  then have "Pubkey [77] \<notin> set full_keys" by (auto simp: full_keys_def)
  then have k: "db (sys_cache full_system) (Pubkey [77]) = None" using dom by blast
  have "db (sys_cache full_system) (Pubkey [0]) \<noteq> None" using dom by (simp add: keys)
  then have "evict full_env (Pubkey [77]) (db (sys_cache full_system)) = Some (Pubkey [0])"
    by (simp add: full_env_def full_system_card keys)
  moreover have "sync_subscribe full_env (Pubkey [0]) = Some 100" "answers_at_once full_env (Pubkey [0])"
    by (simp_all add: full_env_def sample_deleg_env_def answers_at_once_def)
  moreover have "tasks full_system = Map.empty" by (simp add: full_system_def)
  ultimately show ?thesis
    using eviction_race_loses_subscription [of full_env full_system "Pubkey [77]" "Pubkey [0]" 100 0 1]
      full_env_evicts cap k full_system_card by simp
qed

section \<open>Slots move forward\<close>

definition entries_advance :: "delegations_cache \<Rightarrow> delegations_cache \<Rightarrow> bool" where
  "entries_advance c c' \<longleftrightarrow>
     (\<forall>k e e'. db c k = Some e \<longrightarrow> db c' k = Some e' \<longrightarrow>
        slot e \<le> slot e' \<and> (slot e = slot e' \<longrightarrow> delegation e = delegation e'))"

lemma entries_advance_same: "db c' = db c \<Longrightarrow> entries_advance c c'"
  by (simp add: entries_advance_def)

lemma entries_advance_writers:
  "entries_advance c (snd (remove_pending_fill pda f c))"
  "entries_advance c (snd (claim_fill pda f m c))"
  "entries_advance c (release_fill pda f c)"
  "entries_advance c (snd (merge_fetched pda e g c))"
  "entries_advance c (update_cached_entry pda t r c)"
  by (auto simp: entries_advance_def remove_pending_fill_def claim_fill_def release_fill_def
      merge_fetched_def update_cached_entry_def Let_def split: option.splits if_splits)

lemma entries_advance_put:
  "db c pda = None \<Longrightarrow> db c1 = db c \<Longrightarrow> entries_advance c (snd (put_entry E pda e c1))"
  by (auto simp: entries_advance_def put_entry_def split: option.splits if_splits)

lemma entries_advance_stream: "entries_advance c (updater_msg m c)"
  using entries_advance_writers(5) [of c]
  by (auto simp: entries_advance_def db_updater_msg simp del: updater_msg.simps split: account_update.splits)

lemma task_step_advances:
  assumes "task_step pda p c p' c'"
  shows "entries_advance c c'"
  using assms
proof cases
  case (insert_vacant f c1 E v)
  then show ?thesis
    using entries_advance_put [of c pda c1 E "placeholder f"] db_new_fill [of c] by simp
next
  case (insert_occupied f c1)
  then show ?thesis using db_new_fill [of c] by (simp add: entries_advance_same)
next
  case (subscribed E s f)
  then show ?thesis using db_subscribe [of E pda c] by (simp add: entries_advance_same)
next
  case (subscribe_failed E f)
  then show ?thesis using db_subscribe [of E pda c] by (simp add: entries_advance_same)
next
  case (fetch_unowned E m e t)
  then show ?thesis using db_fetch [of E pda m c] by (simp add: entries_advance_same)
next
  case (fill_fetched E m e t f)
  then show ?thesis using db_fetch [of E pda m c] by (simp add: entries_advance_same)
next
  case (fetch_unsubscribed E e t c2 f)
  then show ?thesis using db_fetch [of E pda None c] by (simp add: entries_advance_same)
qed (use entries_advance_writers [of c] in
      \<open>force simp: entries_advance_same entries_advance_def dest: arg_cong [where f = snd]\<close>)+

text \<open>C19: Whatever caller or stream message takes the next step, an entry that is in the cache before and
  after the step has not gone back to an older slot, and its record is unchanged unless its slot
  strictly increased.\<close>

theorem slots_never_regress:
  assumes "sys_step s t" and "db (sys_cache s) k = Some e" and "db (sys_cache t) k = Some e'"
  shows "slot e \<le> slot e' \<and> (slot e = slot e' \<longrightarrow> delegation e = delegation e')"
proof -
  have "entries_advance (sys_cache s) (sys_cache t)"
    using assms(1)
    by cases (auto simp: entries_advance_same drop_owned_def entries_advance_stream split: option.splits
        intro: task_step_advances simp del: updater_msg.simps)
  with assms(2,3) show ?thesis unfolding entries_advance_def by blast
qed

definition filled_system :: system where
  "filled_system =
     \<lparr>sys_cache = sample_cache\<lparr>db := [Pubkey [5] \<mapsto> fetched_entry 120 None]\<rparr>, tasks = Map.empty\<rparr>"

theorem slots_never_regress_witness:
  "slot (fetched_entry 120 None) \<le> slot (fetched_entry 130 None)
   \<and> db (sys_cache (exec_event (Stream (Undelegated (Pubkey [5]) 130)) filled_system)) (Pubkey [5])
       = Some (fetched_entry 130 None)"
proof -
  have after: "db (sys_cache (exec_event (Stream (Undelegated (Pubkey [5]) 130)) filled_system)) (Pubkey [5])
      = Some (fetched_entry 130 None)"
    by (simp add: filled_system_def update_cached_entry_def fetched_entry_def Let_def word_le_nat_alt)
  have "sys_step filled_system (exec_event (Stream (Undelegated (Pubkey [5]) 130)) filled_system)"
    using sys_update by (simp del: updater_msg.simps)
  moreover have "db (sys_cache filled_system) (Pubkey [5]) = Some (fetched_entry 120 None)"
    by (simp add: filled_system_def)
  ultimately show ?thesis using slots_never_regress after by blast
qed

end
