(* ===== verification/Http.thy ===== *)
theory Http
  imports Delegations
begin

text \<open>
  \<open>src/server/http.rs\<close> and the default methods of \<open>src/rpc/http.rs\<close>: the JSON-RPC handlers over HTTP.
  Each handler is a function from the server state to a result and the new state.  The routing table
  the server holds is the one behind the delegations cache (\<open>lib.rs\<close> clones one \<open>Arc\<close>).

  What the handlers call outside the repository is the argument \<open>http_env\<close>: parsing and printing of
  keys, hashes and transactions, default configurations, and the answers of the upstream RPC clients.
  \<open>forwarded\<close> records the calls the handlers send upstream, in order.  Account data, token amounts and
  transaction details are passed through unread and are kept as JSON; of a response's context only the
  slot is kept.
\<close>

section \<open>State and environment\<close>

datatype hash = Hash "u8 list"

datatype versioned_transaction = VersionedTransaction "u8 list"

datatype ui_transaction_encoding = Binary | Base64 | Base58 | Json | JsonParsed

datatype upstream_call =
    CallAccount pubkey
  | CallMultiple "pubkey list"
  | CallBalance pubkey
  | CallTokenBalance pubkey
  | CallSignatureStatuses "signature list"
  | CallTransaction signature
  | CallBlockhashValid hash
  | CallLatestBlockhash
  | CallSignaturesForAddress pubkey
  | CallSend versioned_transaction

record http_server =
  delegations :: delegations_cache
  transactions :: forwarded_transactions
  blockhashes :: "hash \<rightharpoonup> rpc_client"
  forwarded :: "(rpc_client \<times> upstream_call) list"

record 'a response =
  context_slot :: u64
  response_value :: 'a

record rpc_context_config =
  ctx_commitment :: "json option"
  ctx_min_context_slot :: "u64 option"

record rpc_signatures_config =
  cfg_before :: "string option"
  cfg_until :: "string option"
  cfg_limit :: "nat option"
  cfg_commitment :: "json option"

record address_signatures_config =
  addr_before :: "signature option"
  addr_until :: "signature option"
  addr_limit :: "nat option"
  addr_commitment :: "json option"

record rpc_send_config =
  send_encoding :: "ui_transaction_encoding option"
  send_options :: json

record rpc_blockhash =
  blockhash :: string
  last_valid_block_height :: u64

type_synonym 'a answer = "(string, 'a) result"

type_synonym account_group = "rpc_client \<times> (nat \<times> pubkey) list"

record http_env =
  deleg :: deleg_env
  disp :: display
  clock :: nat
  put_transaction :: "(signature, remote_handle) put_op"
  put_blockhash :: "(hash, rpc_client) put_op"
  parse_signature :: "string \<Rightarrow> signature answer"
  parse_hash :: "string \<Rightarrow> hash answer"
  show_hash :: "hash \<Rightarrow> string"
  default_account_config :: json
  default_transaction_config :: json
  default_commitment :: json
  default_send_config :: rpc_send_config
  show_encoding :: "ui_transaction_encoding \<Rightarrow> string"
  bs58_decode :: "string \<Rightarrow> u8 list answer"
  base64_decode :: "string \<Rightarrow> u8 list answer"
  deserialize_transaction :: "u8 list \<Rightarrow> versioned_transaction answer"
  static_account_keys :: "versioned_transaction \<Rightarrow> pubkey list"
  is_maybe_writable :: "versioned_transaction \<Rightarrow> nat \<Rightarrow> bool"
  get_signature :: "versioned_transaction \<Rightarrow> signature"
  identity_order :: "(pubkey \<times> (nat \<times> pubkey) list) list \<Rightarrow> (pubkey \<times> (nat \<times> pubkey) list) list"
  completion_order :: "account_group list \<Rightarrow> account_group list"
  get_ui_account :: "rpc_client \<Rightarrow> pubkey \<Rightarrow> json \<Rightarrow> json option response answer"
  get_multiple_ui_accounts :: "rpc_client \<Rightarrow> pubkey list \<Rightarrow> json \<Rightarrow> json option list response answer"
  get_balance :: "rpc_client \<Rightarrow> pubkey \<Rightarrow> json \<Rightarrow> u64 response answer"
  get_token_account_balance :: "rpc_client \<Rightarrow> pubkey \<Rightarrow> json \<Rightarrow> json response answer"
  get_signature_statuses :: "rpc_client \<Rightarrow> signature list \<Rightarrow> json option list response answer"
  get_transaction_details :: "rpc_client \<Rightarrow> signature \<Rightarrow> json \<Rightarrow> json answer"
  check_blockhash :: "rpc_client \<Rightarrow> hash \<Rightarrow> json \<Rightarrow> bool answer"
  get_latest_blockhash :: "rpc_client \<Rightarrow> (hash \<times> u64) answer"
  get_signatures_for_address :: "rpc_client \<Rightarrow> pubkey \<Rightarrow> address_signatures_config \<Rightarrow> json list answer"
  send_transaction_to :: "rpc_client \<Rightarrow> versioned_transaction \<Rightarrow> rpc_send_config \<Rightarrow> signature answer"

definition unwrap_or :: "'a \<Rightarrow> 'a option \<Rightarrow> 'a" where
  "unwrap_or d x = (case x of None \<Rightarrow> d | Some v \<Rightarrow> v)"

type_synonym 'a outcome = "(error_object, 'a) result \<times> http_server"

text \<open>Sending a call upstream, with \<open>map_err(RouterError::from)\<close> and the conversion to an error object.\<close>

definition forward :: "http_env \<Rightarrow> rpc_client \<Rightarrow> upstream_call \<Rightarrow> 'a answer \<Rightarrow> http_server \<Rightarrow> 'a outcome" where
  "forward E c call ans s =
     (map_err (\<lambda>e. error_object_from (disp E) (router_error_from_client e)) ans,
      s\<lparr>forwarded := forwarded s @ [(c, call)]\<rparr>)"

definition raise :: "http_env \<Rightarrow> router_error \<Rightarrow> (error_object, 'a) result" where
  "raise E e = Inl (error_object_from (disp E) e)"


section \<open>Looking up delegations\<close>

definition lookup_authority :: "http_env \<Rightarrow> pubkey \<Rightarrow> http_server \<Rightarrow> pubkey option \<times> http_server" where
  "lookup_authority E key s =
     (case get_delegation_authority (deleg E) key (delegations s) of
        (a, c) \<Rightarrow> (a, s\<lparr>delegations := c\<rparr>))"

definition table :: "http_server \<Rightarrow> routing_table" where
  "table s = routes (delegations s)"

definition next_base_chain :: "http_server \<Rightarrow> upstream_record \<times> http_server" where
  "next_base_chain s =
     (case base_chain (table s) of
        (b, rt) \<Rightarrow> (b, s\<lparr>delegations := (delegations s)\<lparr>routes := rt\<rparr>\<rparr>))"

definition resolve_client ::
  "http_env \<Rightarrow> pubkey \<Rightarrow> http_server \<Rightarrow> (router_error, rpc_client) result \<times> http_server" where
  "resolve_client E key s =
     (case lookup_authority E key s of
        (Some identity, s') \<Rightarrow> (ok_or (ephemeral_client identity (table s')) (UnknownErNode identity), s')
      | (None, s') \<Rightarrow> (case next_base_chain s' of (b, s'') \<Rightarrow> (Inr (client b), s'')))"

text \<open>The loop over accounts that both \<open>blockhash_for_accounts\<close> and \<open>send_transaction\<close> contain:
  \<open>delegated\<close> is replaced by every validator found, and a change of validator is an error.\<close>

fun scan_validators ::
  "(pubkey \<Rightarrow> 's \<Rightarrow> pubkey option \<times> 's) \<Rightarrow> pubkey list \<Rightarrow> pubkey option \<Rightarrow> 's
    \<Rightarrow> (router_error, pubkey option) result \<times> 's" where
  "scan_validators lookup [] delegated s = (Inr delegated, s)"
| "scan_validators lookup (key # keys) delegated s =
     (case lookup key s of
        (None, s') \<Rightarrow> scan_validators lookup keys delegated s'
      | (Some validator, s') \<Rightarrow>
          (case delegated of
             None \<Rightarrow> scan_validators lookup keys (Some validator) s'
           | Some old \<Rightarrow>
               if old \<noteq> validator then (Inl ConflictingDelegations, s')
               else scan_validators lookup keys (Some validator) s'))"

text \<open>\<open>join_all\<close> over the lookups, taken in order.\<close>

fun lookup_all ::
  "(pubkey \<Rightarrow> 's \<Rightarrow> pubkey option \<times> 's) \<Rightarrow> pubkey list \<Rightarrow> 's \<Rightarrow> pubkey option list \<times> 's" where
  "lookup_all lookup [] s = ([], s)"
| "lookup_all lookup (key # keys) s =
     (let (a, s1) = lookup key s; (rest, s2) = lookup_all lookup keys s1 in (a # rest, s2))"


section \<open>Reading accounts\<close>

definition account_info ::
  "http_env \<Rightarrow> serde_pubkey \<Rightarrow> json option \<Rightarrow> http_server \<Rightarrow> json option response outcome" where
  "account_info E pubkey params s =
     (let key = serde_pubkey_inner pubkey
      in case resolve_client E key s of
           (Inl e, s') \<Rightarrow> (raise E e, s')
         | (Inr c, s') \<Rightarrow>
             forward E c (CallAccount key)
               (get_ui_account E c key (unwrap_or (default_account_config E) params)) s')"

fun group_push ::
  "pubkey \<Rightarrow> nat \<times> pubkey \<Rightarrow> (pubkey \<times> (nat \<times> pubkey) list) list
    \<Rightarrow> (pubkey \<times> (nat \<times> pubkey) list) list" where
  "group_push identity x [] = [(identity, [x])]"
| "group_push identity x ((i, xs) # gs) =
     (if i = identity then (i, xs @ [x]) # gs else (i, xs) # group_push identity x gs)"

fun group_accounts ::
  "(nat \<times> pubkey option \<times> pubkey) list \<Rightarrow> (pubkey \<times> (nat \<times> pubkey) list) list \<times> (nat \<times> pubkey) list
    \<Rightarrow> (pubkey \<times> (nat \<times> pubkey) list) list \<times> (nat \<times> pubkey) list" where
  "group_accounts [] gs = gs"
| "group_accounts ((i, status, key) # rest) (delegated, undelegated) =
     (case status of
        Some identity \<Rightarrow> group_accounts rest (group_push identity (i, key) delegated, undelegated)
      | None \<Rightarrow> group_accounts rest (delegated, undelegated @ [(i, key)]))"

text \<open>The requests are only created here; none is sent when an identity has no route.\<close>

fun er_requests ::
  "routing_table \<Rightarrow> (pubkey \<times> (nat \<times> pubkey) list) list \<Rightarrow> (router_error, account_group list) result" where
  "er_requests rt [] = Inr []"
| "er_requests rt ((identity, keys) # gs) =
     (case ok_or (ephemeral_client identity rt) (UnknownErNode identity) of
        Inl e \<Rightarrow> Inl e
      | Inr c \<Rightarrow> (case er_requests rt gs of Inl e \<Rightarrow> Inl e | Inr rs \<Rightarrow> Inr ((c, keys) # rs)))"

fun store_accounts ::
  "((nat \<times> pubkey) \<times> json option) list \<Rightarrow> json option list \<Rightarrow> json option list" where
  "store_accounts [] response = response"
| "store_accounts (((index, _), account) # rest) response =
     store_accounts rest (response[index := account])"

text \<open>The loop over completed requests; \<open>max_slot\<close> is the running maximum.\<close>

fun collect_accounts ::
  "http_env \<Rightarrow> json \<Rightarrow> account_group list \<Rightarrow> json option list \<times> u64
    \<Rightarrow> (router_error, json option list \<times> u64) result" where
  "collect_accounts E config [] acc = Inr acc"
| "collect_accounts E config ((c, keys) # rest) (response, max_slot) =
     (case get_multiple_ui_accounts E c (map snd keys) config of
        Inl e \<Rightarrow> Inl (router_error_from_client e)
      | Inr r \<Rightarrow>
          collect_accounts E config rest
            (store_accounts (zip keys (response_value r)) response, max max_slot (context_slot r)))"

definition multiple_accounts ::
  "http_env \<Rightarrow> serde_pubkey list \<Rightarrow> json option \<Rightarrow> http_server \<Rightarrow> json option list response outcome" where
  "multiple_accounts E pubkeys params s =
     (let keys = map serde_pubkey_inner pubkeys;
          config = unwrap_or (default_account_config E) params;
          (statuses, s1) = lookup_all (lookup_authority E) keys s;
          (delegated, undelegated) = group_accounts (enumerate 0 (zip statuses keys)) ([], [])
      in case er_requests (table s1) (identity_order E delegated) of
           Inl e \<Rightarrow> (raise E e, s1)
         | Inr ers \<Rightarrow>
             (let (requests, s2) =
                    (if undelegated = [] then (ers, s1)
                     else case next_base_chain s1 of (b, s') \<Rightarrow> (ers @ [(client b, undelegated)], s'));
                  s3 = s2\<lparr>forwarded := forwarded s2
                          @ map (\<lambda>(c, ks). (c, CallMultiple (map snd ks))) requests\<rparr>
              in case collect_accounts E config (completion_order E requests)
                        (replicate (length pubkeys) None, 0) of
                   Inl e \<Rightarrow> (raise E e, s3)
                 | Inr (response, max_slot) \<Rightarrow>
                     (Inr \<lparr>context_slot = max_slot, response_value = response\<rparr>, s3)))"

definition commitment_of :: "http_env \<Rightarrow> rpc_context_config option \<Rightarrow> json" where
  "commitment_of E params =
     unwrap_or (default_commitment E)
       (ctx_commitment (unwrap_or \<lparr>ctx_commitment = None, ctx_min_context_slot = None\<rparr> params))"

definition balance ::
  "http_env \<Rightarrow> serde_pubkey \<Rightarrow> rpc_context_config option \<Rightarrow> http_server \<Rightarrow> u64 response outcome" where
  "balance E pubkey params s =
     (let key = serde_pubkey_inner pubkey
      in case resolve_client E key s of
           (Inl e, s') \<Rightarrow> (raise E e, s')
         | (Inr c, s') \<Rightarrow> forward E c (CallBalance key) (get_balance E c key (commitment_of E params)) s')"

definition token_account_balance ::
  "http_env \<Rightarrow> serde_pubkey \<Rightarrow> rpc_context_config option \<Rightarrow> http_server \<Rightarrow> json response outcome" where
  "token_account_balance E pubkey params s =
     (let key = serde_pubkey_inner pubkey
      in case resolve_client E key s of
           (Inl e, s') \<Rightarrow> (raise E e, s')
         | (Inr c, s') \<Rightarrow>
             forward E c (CallTokenBalance key)
               (get_token_account_balance E c key (commitment_of E params)) s')"

definition closest :: "http_env \<Rightarrow> http_server \<Rightarrow> (router_error, serde_pubkey \<times> rpc_client) result \<times> http_server" where
  "closest E s =
     (case closest_node (clock E) (table s) of
        (r, rt) \<Rightarrow> (r, s\<lparr>delegations := (delegations s)\<lparr>routes := rt\<rparr>\<rparr>))"

definition identity :: "http_env \<Rightarrow> http_server \<Rightarrow> rpc_identity outcome" where
  "identity E s =
     (case closest E s of
        (Inl e, s') \<Rightarrow> (raise E e, s')
      | (Inr (i, c), s') \<Rightarrow> (Inr \<lparr>rpc_identity_identity = i, rpc_identity_fqdn = client_url c\<rparr>, s'))"


section \<open>Transactions and blockhashes\<close>

fun parse_signatures :: "http_env \<Rightarrow> string list \<Rightarrow> (router_error, signature list) result" where
  "parse_signatures E [] = Inr []"
| "parse_signatures E (x # xs) =
     (case parse_signature E x of
        Inl e \<Rightarrow> Inl (decode_error e)
      | Inr sig \<Rightarrow> (case parse_signatures E xs of Inl e \<Rightarrow> Inl e | Inr sigs \<Rightarrow> Inr (sig # sigs)))"

definition signature_statuses ::
  "http_env \<Rightarrow> string list \<Rightarrow> http_server \<Rightarrow> json option list response outcome" where
  "signature_statuses E signatures s =
     (case parse_signatures E signatures of
        Inl e \<Rightarrow> (raise E e, s)
      | Inr [] \<Rightarrow> (Inr \<lparr>context_slot = 0, response_value = []\<rparr>, s)
      | Inr (sig # sigs) \<Rightarrow>
          (case get_transaction sig (transactions s) of
             None \<Rightarrow> (Inr \<lparr>context_slot = 0, response_value = []\<rparr>, s)
           | Some h \<Rightarrow>
               forward E (handle_rpc h) (CallSignatureStatuses (sig # sigs))
                 (get_signature_statuses E (handle_rpc h) (sig # sigs)) s))"

definition transaction ::
  "http_env \<Rightarrow> string \<Rightarrow> json option \<Rightarrow> http_server \<Rightarrow> json option outcome" where
  "transaction E sig_str params s =
     (case parse_signature E sig_str of
        Inl e \<Rightarrow> (raise E (decode_error e), s)
      | Inr sig \<Rightarrow>
          (case get_transaction sig (transactions s) of
             None \<Rightarrow> (Inr None, s)
           | Some h \<Rightarrow>
               forward E (handle_rpc h) (CallTransaction sig)
                 (map_sum id Some
                   (get_transaction_details E (handle_rpc h) sig
                     (unwrap_or (default_transaction_config E) params))) s))"

definition is_blockhash_valid ::
  "http_env \<Rightarrow> string \<Rightarrow> json option \<Rightarrow> http_server \<Rightarrow> bool response outcome" where
  "is_blockhash_valid E hash_str params s =
     (case parse_hash E hash_str of
        Inl e \<Rightarrow> (raise E (decode_error e), s)
      | Inr h \<Rightarrow>
          (case blockhashes s h of
             None \<Rightarrow> (Inr \<lparr>context_slot = 0, response_value = False\<rparr>, s)
           | Some c \<Rightarrow>
               forward E c (CallBlockhashValid h)
                 (map_sum id (\<lambda>v. \<lparr>context_slot = 0, response_value = v\<rparr>)
                   (check_blockhash E c h (unwrap_or (default_commitment E) params))) s))"

definition get_routes :: "http_server \<Rightarrow> route_info list outcome" where
  "get_routes s = (Inr (all_routes (table s)), s)"

definition remember_blockhash :: "http_env \<Rightarrow> hash \<Rightarrow> rpc_client \<Rightarrow> http_server \<Rightarrow> http_server" where
  "remember_blockhash E h c s = s\<lparr>blockhashes := put_blockhash E h c (blockhashes s)\<rparr>"

definition blockhash_for_accounts ::
  "http_env \<Rightarrow> serde_pubkey list \<Rightarrow> http_server \<Rightarrow> rpc_blockhash outcome" where
  "blockhash_for_accounts E accounts s =
     (case scan_validators (lookup_authority E) (map serde_pubkey_inner accounts) None s of
        (Inl e, s1) \<Rightarrow> (raise E e, s1)
      | (Inr delegated, s1) \<Rightarrow>
          (case (case delegated of
                   Some i \<Rightarrow> (ok_or (ephemeral_client i (table s1)) (UnknownErNode i), s1)
                 | None \<Rightarrow> (case next_base_chain s1 of (b, s') \<Rightarrow> (Inr (client b), s'))) of
             (Inl e, s2) \<Rightarrow> (raise E e, s2)
           | (Inr c, s2) \<Rightarrow>
               (case forward E c CallLatestBlockhash (get_latest_blockhash E c) s2 of
                  (Inl e, s3) \<Rightarrow> (Inl e, s3)
                | (Inr (h, height), s3) \<Rightarrow>
                    (Inr \<lparr>blockhash = show_hash E h, last_valid_block_height = height\<rparr>,
                     remember_blockhash E h c s3))))"

definition delegation_status_of ::
  "http_env \<Rightarrow> serde_pubkey \<Rightarrow> http_server \<Rightarrow> delegation_status outcome" where
  "delegation_status_of E pubkey s =
     (case get_record (deleg E) (serde_pubkey_inner pubkey) (delegations s) of
        (record, c) \<Rightarrow>
          (let s' = s\<lparr>delegations := c\<rparr>
           in case record of
                None \<Rightarrow>
                  (Inr \<lparr>is_delegated = False, fqdn = None, delegation_record = None\<rparr>, s')
              | Some r \<Rightarrow>
                  (let a = serde_pubkey_inner (authority r)
                   in case ephemeral_client a (table s') of
                        None \<Rightarrow> (raise E (UnknownErNode a), s')
                      | Some cl \<Rightarrow>
                          (Inr \<lparr>is_delegated = True, fqdn = Some (client_url cl),
                                delegation_record = Some r\<rparr>, s'))))"

definition latest_blockhash :: "http_env \<Rightarrow> http_server \<Rightarrow> rpc_blockhash response outcome" where
  "latest_blockhash E s =
     (case closest E s of
        (Inl e, s1) \<Rightarrow> (raise E e, s1)
      | (Inr (_, c), s1) \<Rightarrow>
          (case forward E c CallLatestBlockhash (get_latest_blockhash E c) s1 of
             (Inl e, s2) \<Rightarrow> (Inl e, s2)
           | (Inr (h, height), s2) \<Rightarrow>
               (Inr \<lparr>context_slot = height,
                     response_value = \<lparr>blockhash = show_hash E h, last_valid_block_height = height + 150\<rparr>\<rparr>,
                remember_blockhash E h c s2)))"

definition parse_optional :: "http_env \<Rightarrow> string option \<Rightarrow> (router_error, signature option) result" where
  "parse_optional E x =
     (case x of
        None \<Rightarrow> Inr None
      | Some t \<Rightarrow> (case parse_signature E t of Inl e \<Rightarrow> Inl (decode_error e) | Inr sig \<Rightarrow> Inr (Some sig)))"

definition signatures_for_address ::
  "http_env \<Rightarrow> serde_pubkey \<Rightarrow> rpc_signatures_config option \<Rightarrow> http_server \<Rightarrow> json list outcome" where
  "signatures_for_address E pubkey params s =
     (case resolve_client E (serde_pubkey_inner pubkey) s of
        (Inl e, s1) \<Rightarrow> (raise E e, s1)
      | (Inr c, s1) \<Rightarrow>
          (let cfg = unwrap_or \<lparr>cfg_before = None, cfg_until = None, cfg_limit = None,
                                cfg_commitment = None\<rparr> params
           in case parse_optional E (cfg_before cfg) of
                Inl e \<Rightarrow> (raise E e, s1)
              | Inr before \<Rightarrow>
                  (case parse_optional E (cfg_until cfg) of
                     Inl e \<Rightarrow> (raise E e, s1)
                   | Inr until \<Rightarrow>
                       forward E c (CallSignaturesForAddress (serde_pubkey_inner pubkey))
                         (get_signatures_for_address E c (serde_pubkey_inner pubkey)
                           \<lparr>addr_before = before, addr_until = until, addr_limit = cfg_limit cfg,
                            addr_commitment = cfg_commitment cfg\<rparr>) s1)))"


section \<open>Sending transactions\<close>

definition decode_transaction ::
  "http_env \<Rightarrow> ui_transaction_encoding \<Rightarrow> string \<Rightarrow> (error_object, u8 list) result" where
  "decode_transaction E encoding txn =
     (if encoding = Base58 \<or> encoding = Binary
      then map_err (\<lambda>e. error_object_from (disp E) (decode_error e)) (bs58_decode E txn)
      else if encoding = Base64
      then map_err (\<lambda>e. error_object_from (disp E) (decode_error e)) (base64_decode E txn)
      else Inl \<lparr>code = 1, message = show_encoding E encoding @ '' transaction encoding is not supported''\<rparr>)"

definition writable_keys :: "http_env \<Rightarrow> versioned_transaction \<Rightarrow> pubkey list" where
  "writable_keys E txn =
     map snd (filter (\<lambda>(i, _). is_maybe_writable E txn i) (enumerate 0 (static_account_keys E txn)))"

text \<open>The handle the transaction is sent to, from the validator found by the scan.\<close>

definition transaction_handle ::
  "pubkey option \<Rightarrow> http_server \<Rightarrow> (router_error, remote_handle) result \<times> http_server" where
  "transaction_handle delegated s =
     (case delegated of
        Some i \<Rightarrow> (ok_or (ephemeral_handle i (table s)) (UnknownErNode i), s)
      | None \<Rightarrow>
          (case next_base_chain s of
             (b, s') \<Rightarrow> (Inr \<lparr>handle_rpc = client b, handle_ws = ws_url b\<rparr>, s')))"

definition route_transaction ::
  "http_env \<Rightarrow> versioned_transaction \<Rightarrow> http_server \<Rightarrow> (router_error, remote_handle) result \<times> http_server" where
  "route_transaction E txn s =
     (case scan_validators (lookup_authority E) (writable_keys E txn) None s of
        (Inl e, s1) \<Rightarrow> (Inl e, s1)
      | (Inr delegated, s1) \<Rightarrow> transaction_handle delegated s1)"

definition send_transaction ::
  "http_env \<Rightarrow> string \<Rightarrow> rpc_send_config option \<Rightarrow> http_server \<Rightarrow> string outcome" where
  "send_transaction E txn_str params s =
     (let config = unwrap_or (default_send_config E) params;
          encoding = unwrap_or Base58 (send_encoding config)
      in case decode_transaction E encoding txn_str of
           Inl e \<Rightarrow> (Inl e, s)
         | Inr bytes \<Rightarrow>
             (case deserialize_transaction E bytes of
                Inl e \<Rightarrow> (raise E (decode_error e), s)
              | Inr txn \<Rightarrow>
                  (case route_transaction E txn s of
                     (Inl e, s1) \<Rightarrow> (raise E e, s1)
                   | (Inr h, s1) \<Rightarrow>
                       (case forward E (handle_rpc h) (CallSend txn)
                               (send_transaction_to E (handle_rpc h) txn config) s1 of
                          (Inl e, s2) \<Rightarrow> (Inl e, s2)
                        | (Inr sig, s2) \<Rightarrow>
                            (Inr (show_signature (disp E) sig),
                             s2\<lparr>transactions :=
                                 track (put_transaction E) (get_signature E txn) h (transactions s2)\<rparr>)))))"


section \<open>Constant answers\<close>

record epoch_schedule =
  slots_per_epoch :: u64
  leader_schedule_slot_offset :: u64
  warmup :: bool
  first_normal_epoch :: u64
  first_normal_slot :: u64

record epoch_info =
  epoch :: u64
  slot_index :: u64
  slots_in_epoch :: u64
  absolute_slot :: u64
  block_height :: u64
  transaction_count :: "u64 option"

definition first_available_block :: "http_server \<Rightarrow> u64 outcome" where
  "first_available_block s = (Inr 0, s)"

text \<open>The two constants come from the \<open>solana_epoch_schedule\<close> crate.\<close>

definition get_epoch_schedule :: "u64 \<Rightarrow> u64 \<Rightarrow> http_server \<Rightarrow> epoch_schedule outcome" where
  "get_epoch_schedule minimum_slots default_offset s =
     (Inr \<lparr>slots_per_epoch = minimum_slots, leader_schedule_slot_offset = default_offset,
           warmup = False, first_normal_epoch = 0, first_normal_slot = 0\<rparr>, s)"

definition get_epoch_info :: "http_server \<Rightarrow> epoch_info outcome" where
  "get_epoch_info s =
     (Inr \<lparr>epoch = 0, slot_index = 0, slots_in_epoch = 0, absolute_slot = 0, block_height = 0,
           transaction_count = None\<rparr>, s)"

end
