(* ===== verification/Http_Routing.thy ===== *)
theory Http_Routing
  imports Http "HOL-Library.Multiset"
begin

text \<open>
  Properties of the HTTP handlers (\<open>src/server/http.rs\<close>): which upstream a call goes to, what happens
  when accounts are delegated to different nodes or to an unknown one, and that what was sent or
  handed out is found again.
\<close>

section \<open>What a delegation lookup leaves alone\<close>

text \<open>The part of the routing table that lookups keep: everything but the round-robin index.\<close>

definition fixed_routes :: "routing_table \<Rightarrow> routing_table" where
  "fixed_routes rt = rt\<lparr>base_chain_ups := (base_chain_ups rt)\<lparr>next_index := 0\<rparr>\<rparr>"

lemma fixed_routes_base_chain [simp]: "fixed_routes (snd (base_chain rt)) = fixed_routes rt"
  by (simp add: fixed_routes_def base_chain_def Let_def)

lemma fixed_routes_inner: "fixed_routes rt = fixed_routes rt' \<Longrightarrow> inner rt = inner rt'"
  unfolding fixed_routes_def by (metis routing_table.select_convs(1) routing_table.surjective
      routing_table.update_convs(3))

lemma fixed_ephemeral:
  assumes "fixed_routes rt = fixed_routes rt'"
  shows "ephemeral_client i rt = ephemeral_client i rt'"
    and "ephemeral_handle i rt = ephemeral_handle i rt'"
  using fixed_routes_inner [OF assms] by (simp_all add: ephemeral_client_def ephemeral_handle_def)

lemma routes_writers [simp]:
  "routes (snd (remove_pending_fill pda f c)) = routes c"
  "routes (snd (put_entry E pda e c)) = routes c"
  "routes (unsubscribe k c) = routes c"
  "routes (insert_new E pda e c) = routes c"
  "routes (snd (subscribe E pda c)) = routes c"
  "routes (snd (claim_fill pda f m c)) = routes c"
  "routes (release_fill pda f c) = routes c"
  "routes (snd (merge_fetched pda e g c)) = routes c"
  "routes (snd (new_fill c)) = routes c"
  "routes (send_fill f r c) = routes c"
  "routes (drop_fill f c) = routes c"
  by (simp_all add: db_op_defs split_beta Let_def split: option.splits prod.splits)

text \<open>A lookup leaves the routing table alone or takes one base chain endpoint for its fetch.\<close>

definition routes_advance :: "routing_table \<Rightarrow> routing_table \<Rightarrow> bool" where
  "routes_advance rt rt' \<longleftrightarrow> rt' = rt \<or> rt' = snd (base_chain rt)"

lemma routes_fetch [simp]: "routes (snd (snd (fetch E pda m c))) = snd (base_chain (routes c))"
  by (simp add: fetch_def split_beta Let_def del: upt_Suc fetch_attempts.simps)

lemma routes_get_record_miss:
  assumes "db c pda = None"
  shows "routes_advance (routes c) (routes (snd (get_record_loop E pda c)))"
proof (cases "sync_subscribe E pda")
  case None
  obtain f c1 where f: "new_fill c = (f, c1)" by fastforce
  obtain c2 where sub: "subscribe E pda (insert_new E pda (placeholder f) c1) = (None, c2)"
    using None by (simp add: subscribe_def)
  have "db c2 pda = Some (placeholder f)"
    by (rule db_after_subscribe [OF sub [symmetric]])
  then have "fst (remove_pending_fill pda f c2)" by (rule remove_fill_placeholder)
  moreover have "routes c2 = routes c"
    using routes_writers(5) [of E pda "insert_new E pda (placeholder f) c1"] routes_writers(9) [of c]
    by (simp add: sub f)
  ultimately show ?thesis
    using assms by (subst get_record_loop.simps) (simp add: f sub split_beta routes_advance_def)
next
  case (Some s)
  then show ?thesis
    by (simp add: get_record_loop_miss [OF assms Some] Let_def split_beta claimed_state_def
        routes_advance_def)
qed

lemma routes_get_record_loop: "routes_advance (routes c) (routes (snd (get_record_loop E pda c)))"
proof (cases "db c pda")
  case None
  then show ?thesis by (rule routes_get_record_miss)
next
  case (Some e)
  then consider "slot e \<noteq> 0" | "slot e = 0" "pending e = None"
    | f where "slot e = 0" "pending e = Some f" by fastforce
  then show ?thesis
  proof cases
    case 1
    with Some show ?thesis by (simp add: get_record_loop_hit routes_advance_def)
  next
    case 2
    with Some show ?thesis by (simp add: get_record_loop_unowned routes_advance_def)
  next
    case (3 f)
    have "db (snd (remove_pending_fill pda f c)) pda = None"
      using Some 3 by (simp add: remove_pending_fill_def)
    from routes_get_record_miss [OF this] Some 3 show ?thesis
      by (subst get_record_loop.simps) (auto simp: routes_advance_def split: option.splits)
  qed
qed

lemma routes_lookup_authority: "routes_advance (table s) (table (snd (lookup_authority E key s)))"
  using routes_get_record_loop [of "delegations s"]
  by (simp add: lookup_authority_def get_delegation_authority_def get_record_def split_beta table_def)

lemma routes_advance_fixed: "routes_advance rt rt' \<Longrightarrow> fixed_routes rt' = fixed_routes rt"
  by (auto simp: routes_advance_def)

lemma routes_advance_wf: "routes_advance rt rt' \<Longrightarrow> wf_base rt \<Longrightarrow> wf_base rt'"
  by (auto simp: routes_advance_def)

text \<open>What the handlers can see of the server and a lookup does not change.\<close>

definition stable_view ::
  "http_server \<Rightarrow> routing_table \<times> forwarded_transactions \<times> (hash \<rightharpoonup> rpc_client)
     \<times> (rpc_client \<times> upstream_call) list" where
  "stable_view s = (fixed_routes (table s), transactions s, blockhashes s, forwarded s)"

locale framed_lookup =
  fixes lookup :: "pubkey \<Rightarrow> 's \<Rightarrow> pubkey option \<times> 's"
    and view :: "'s \<Rightarrow> 'v"
  assumes lookup_frame: "view (snd (lookup key s)) = view s"
begin

lemma lookup_all_frame: "view (snd (lookup_all lookup keys s)) = view s"
  using lookup_frame by (induction keys arbitrary: s) (auto simp: Let_def split_beta)

lemma scan_frame: "view (snd (scan_validators lookup keys d s)) = view s"
proof (induction keys arbitrary: d s)
  case (Cons key keys)
  have "view (snd (lookup key s)) = view s" by (rule lookup_frame)
  with Cons.IH show ?case by (auto split: prod.splits option.splits)
qed simp

end

text \<open>A lookup that also keeps an invariant of the state.\<close>

locale safe_lookup = framed_lookup lookup view
  for lookup :: "pubkey \<Rightarrow> 's \<Rightarrow> pubkey option \<times> 's" and view :: "'s \<Rightarrow> 'v" +
  fixes inv :: "'s \<Rightarrow> bool"
  assumes lookup_inv: "inv s \<Longrightarrow> inv (snd (lookup key s))"
begin

lemma lookup_all_inv: "inv s \<Longrightarrow> inv (snd (lookup_all lookup keys s))"
  using lookup_inv by (induction keys arbitrary: s) (auto simp: Let_def split_beta)

end

interpretation authority_lookup:
  safe_lookup "lookup_authority E" stable_view "\<lambda>s. wf_base (table s)"
proof
  show "stable_view (snd (lookup_authority E key s)) = stable_view s" for key s
    using routes_advance_fixed [OF routes_lookup_authority, of E key s]
    by (simp add: stable_view_def) (simp add: lookup_authority_def split_beta)
  show "wf_base (table (snd (lookup_authority E key s)))" if "wf_base (table s)" for key s
    using routes_advance_wf [OF routes_lookup_authority that] .
qed

lemma stable_view_base_chain [simp]: "stable_view (snd (next_base_chain s)) = stable_view s"
  by (simp add: next_base_chain_def stable_view_def table_def split_beta)

lemma stable_viewD:
  assumes "stable_view s' = stable_view s"
  shows "transactions s' = transactions s" "blockhashes s' = blockhashes s" "forwarded s' = forwarded s"
    "ephemeral_client i (table s') = ephemeral_client i (table s)"
    "ephemeral_handle i (table s') = ephemeral_handle i (table s)"
  using assms fixed_ephemeral [of "table s'" "table s"] by (simp_all add: stable_view_def)


definition endpoints :: "routing_table \<Rightarrow> upstream_record set" where
  "endpoints rt = set (upstreams (base_chain_ups rt))"

lemma endpoints_fixed: "endpoints (fixed_routes rt) = endpoints rt"
  by (simp add: endpoints_def fixed_routes_def)

lemma next_base_chain_endpoint:
  "wf_base (table s) \<Longrightarrow> fst (next_base_chain s) \<in> endpoints (table s)"
  by (auto simp: next_base_chain_def base_chain_def wf_base_def Let_def endpoints_def)

lemma endpoint_after_lookups:
  assumes "wf_base (table s)"
  shows "fst (next_base_chain (snd (lookup_all (lookup_authority E) keys s))) \<in> endpoints (table s)"
proof -
  let ?t = "snd (lookup_all (lookup_authority E) keys s)"
  have "stable_view ?t = stable_view s" by (rule authority_lookup.lookup_all_frame)
  then have "endpoints (table ?t) = endpoints (table s)"
    by (metis endpoints_fixed stable_view_def prod.inject)
  with next_base_chain_endpoint authority_lookup.lookup_all_inv [OF assms] show ?thesis by blast
qed


section \<open>Agreement of delegations\<close>

text \<open>The verdict on a list of lookup results: no validator, one validator, or a conflict.\<close>

definition agreed_validator :: "pubkey option list \<Rightarrow> (router_error, pubkey option) result" where
  "agreed_validator statuses =
     (case List.map_filter id statuses of
        [] \<Rightarrow> Inr None
      | v # vs \<Rightarrow> if list_all (\<lambda>w. w = v) vs then Inr (Some v) else Inl ConflictingDelegations)"

lemma agreed_Cons_None [simp]: "agreed_validator (None # xs) = agreed_validator xs"
  by (simp add: agreed_validator_def)

lemma agreed_Some_Some:
  "agreed_validator (Some v # Some w # xs) =
     (if v = w then agreed_validator (Some v # xs) else Inl ConflictingDelegations)"
  by (simp add: agreed_validator_def)

lemma agreed_Some_None: "agreed_validator (Some v # None # xs) = agreed_validator (Some v # xs)"
  by (simp add: agreed_validator_def)

lemma agreed_single [simp]: "agreed_validator [Some v] = Inr (Some v)" "agreed_validator [] = Inr None"
  by (simp_all add: agreed_validator_def)

lemma scan_agreed:
  "fst (scan_validators lookup keys d s) = agreed_validator (d # fst (lookup_all lookup keys s))"
proof (induction keys arbitrary: d s)
  case Nil
  then show ?case by (cases d) simp_all
next
  case (Cons key keys)
  obtain a s1 where a: "lookup key s = (a, s1)" by fastforce
  show ?case
    by (cases a; cases d)
       (simp_all add: a Cons.IH Let_def split_beta agreed_Some_Some agreed_Some_None)
qed

lemma scan_state:
  "fst (scan_validators lookup keys d s) = Inr v
    \<Longrightarrow> snd (scan_validators lookup keys d s) = snd (lookup_all lookup keys s)"
proof (induction keys arbitrary: d s)
  case (Cons key keys)
  obtain a s1 where a: "lookup key s = (a, s1)" by fastforce
  from Cons show ?case
    by (cases a; cases d) (auto simp: a Let_def split_beta split: if_splits)
qed simp


section \<open>Routing a transaction\<close>

text \<open>The verdict of the delegation lookups of the accounts a transaction may write.\<close>

definition transaction_verdict ::
  "http_env \<Rightarrow> versioned_transaction \<Rightarrow> http_server \<Rightarrow> (router_error, pubkey option) result" where
  "transaction_verdict E txn s =
     agreed_validator (fst (lookup_all (lookup_authority E) (writable_keys E txn) s))"

lemma route_transaction_cases:
  "(case transaction_verdict E txn s of
      Inl e \<Rightarrow> fst (route_transaction E txn s) = Inl e
    | Inr (Some i) \<Rightarrow>
        fst (route_transaction E txn s) = ok_or (ephemeral_handle i (table s)) (UnknownErNode i)
    | Inr None \<Rightarrow>
        (let b = fst (next_base_chain (snd (lookup_all (lookup_authority E) (writable_keys E txn) s)))
         in fst (route_transaction E txn s) = Inr \<lparr>handle_rpc = client b, handle_ws = ws_url b\<rparr>))
   \<and> stable_view (snd (route_transaction E txn s)) = stable_view s"
proof -
  let ?scan = "scan_validators (lookup_authority E) (writable_keys E txn) None s"
  have verdict: "fst ?scan = transaction_verdict E txn s"
    by (simp add: scan_agreed transaction_verdict_def)
  have frame: "stable_view (snd ?scan) = stable_view s" by (rule authority_lookup.scan_frame)
  show ?thesis
  proof (cases "transaction_verdict E txn s")
    case (Inl e)
    then show ?thesis
      using verdict frame by (cases ?scan) (simp add: route_transaction_def)
  next
    case (Inr v)
    have state: "snd ?scan = snd (lookup_all (lookup_authority E) (writable_keys E txn) s)"
      using verdict Inr by (intro scan_state) simp
    show ?thesis
    proof (cases v)
      case None
      then show ?thesis
        using verdict frame state Inr
        by (cases ?scan) (simp add: route_transaction_def transaction_handle_def split_beta Let_def)
    next
      case (Some i)
      then show ?thesis
        using verdict frame Inr stable_viewD(5) [OF frame]
        by (cases ?scan) (simp add: route_transaction_def transaction_handle_def)
    qed
  qed
qed

text \<open>The upstream a transaction belongs to: the node its accounts agree on, or a base chain endpoint.\<close>

definition transaction_upstream :: "http_env \<Rightarrow> versioned_transaction \<Rightarrow> http_server \<Rightarrow> remote_handle \<Rightarrow> bool" where
  "transaction_upstream E txn s h =
     (case transaction_verdict E txn s of
        Inl e \<Rightarrow> False
      | Inr (Some i) \<Rightarrow> ephemeral_handle i (table s) = Some h
      | Inr None \<Rightarrow> h \<in> (\<lambda>b. \<lparr>handle_rpc = client b, handle_ws = ws_url b\<rparr>) ` endpoints (table s))"

lemma route_transaction_upstream:
  assumes "wf_base (table s)" and "fst (route_transaction E txn s) = Inr h"
  shows "transaction_upstream E txn s h"
  using route_transaction_cases [of E txn s] endpoint_after_lookups [OF assms(1), of E "writable_keys E txn"]
    assms(2)
  by (auto simp: transaction_upstream_def ok_or_eq_iff Let_def split: sum.splits option.splits)

lemma send_transaction_decoded:
  assumes "decode_transaction E (unwrap_or Base58 (send_encoding (unwrap_or (default_send_config E) params)))
             txn_str = Inr bytes"
    and "deserialize_transaction E bytes = Inr txn"
  shows "send_transaction E txn_str params s =
    (case route_transaction E txn s of
       (Inl e, s1) \<Rightarrow> (raise E e, s1)
     | (Inr h, s1) \<Rightarrow>
         (case send_transaction_to E (handle_rpc h) txn (unwrap_or (default_send_config E) params) of
            Inl e \<Rightarrow> (raise E (router_error_from_client e),
                      s1\<lparr>forwarded := forwarded s1 @ [(handle_rpc h, CallSend txn)]\<rparr>)
          | Inr sig \<Rightarrow>
              (Inr (show_signature (disp E) sig),
               s1\<lparr>forwarded := forwarded s1 @ [(handle_rpc h, CallSend txn)],
                  transactions := track (put_transaction E) (get_signature E txn) h (transactions s1)\<rparr>)))"
  using assms
  by (simp add: send_transaction_def Let_def forward_def raise_def split: prod.splits sum.splits)

text \<open>C1: A decodable transaction is judged by the delegations of the accounts it may write and of no
  others.  If two of them are delegated to different nodes it is refused; if they agree on a node that
  has no route it is refused; in both cases nothing is sent and nothing is tracked.  If they agree on a
  known node, exactly one send goes to that node, and if none of them is delegated, exactly one send
  goes to a base chain endpoint.\<close>

theorem send_transaction_follows_delegations:
  assumes "decode_transaction E (unwrap_or Base58 (send_encoding (unwrap_or (default_send_config E) params)))
             txn_str = Inr bytes"
    and "deserialize_transaction E bytes = Inr txn"
    and "send_transaction E txn_str params s = (r, s')" and "wf_base (table s)"
  shows "case transaction_verdict E txn s of
      Inl e \<Rightarrow> r = raise E e \<and> forwarded s' = forwarded s \<and> transactions s' = transactions s
    | Inr None \<Rightarrow> \<exists>b \<in> endpoints (table s). forwarded s' = forwarded s @ [(client b, CallSend txn)]
    | Inr (Some i) \<Rightarrow>
        (case ephemeral_handle i (table s) of
           None \<Rightarrow> r = raise E (UnknownErNode i) \<and> forwarded s' = forwarded s
                    \<and> transactions s' = transactions s
         | Some h \<Rightarrow> forwarded s' = forwarded s @ [(handle_rpc h, CallSend txn)])"
proof -
  note cases = route_transaction_cases [of E txn s]
  obtain rr s1 where route: "route_transaction E txn s = (rr, s1)" by fastforce
  with cases have view: "stable_view s1 = stable_view s" by simp
  note same = stable_viewD(1,3) [OF view]
  have eq: "(r, s') = (case rr of
       Inl e \<Rightarrow> (raise E e, s1)
     | Inr h \<Rightarrow>
         (case send_transaction_to E (handle_rpc h) txn (unwrap_or (default_send_config E) params) of
            Inl e \<Rightarrow> (raise E (router_error_from_client e),
                      s1\<lparr>forwarded := forwarded s1 @ [(handle_rpc h, CallSend txn)]\<rparr>)
          | Inr sig \<Rightarrow>
              (Inr (show_signature (disp E) sig),
               s1\<lparr>forwarded := forwarded s1 @ [(handle_rpc h, CallSend txn)],
                  transactions := track (put_transaction E) (get_signature E txn) h (transactions s1)\<rparr>)))"
    using send_transaction_decoded [OF assms(1,2), of s] assms(3) route by simp
  have sent: "rr = Inr h \<Longrightarrow> forwarded s' = forwarded s @ [(handle_rpc h, CallSend txn)]" for h
    using eq same by (auto split: sum.splits)
  show ?thesis
  proof (cases "transaction_verdict E txn s")
    case (Inl e)
    then show ?thesis using cases route eq same by simp
  next
    case (Inr v)
    show ?thesis
    proof (cases v)
      case None
      with Inr cases route sent endpoint_after_lookups [OF assms(4), of E "writable_keys E txn"]
      show ?thesis by (force simp: Let_def)
    next
      case (Some i)
      with Inr cases route eq same sent show ?thesis by (auto split: option.splits)
    qed
  qed
qed

text \<open>A server with two ER routes: account 11 is delegated to node 1, account 12 to node 2 and
  account 13 is known not to be delegated.\<close>

definition sample_delegated :: "u8 \<Rightarrow> delegation_entry" where
  "sample_delegated v =
     fetched_entry 50 (Some \<lparr>authority = SerdePubkey (Pubkey [v]), owner = SerdePubkey (Pubkey [8]),
                             delegation_slot = 40, lamports = 1\<rparr>)"

definition sample_server :: http_server where
  "sample_server =
     \<lparr>delegations =
        (delegations_new sample_er_table 100 metrics_new)\<lparr>db :=
          [Pubkey [11] \<mapsto> sample_delegated 1, Pubkey [12] \<mapsto> sample_delegated 2,
           Pubkey [13] \<mapsto> fetched_entry 50 None]\<rparr>,
      transactions = forwarded_transactions_new 100,
      blockhashes = Map.empty,
      forwarded = []\<rparr>"

definition sample_http_env :: http_env where
  "sample_http_env =
     \<lparr>deleg = sample_deleg_env,
      disp = \<lparr>show_pubkey = (\<lambda>_. ''key''), show_signature = (\<lambda>_. ''sig'')\<rparr>,
      clock = 200,
      put_transaction = put_with_policy (\<lambda>_ _. None),
      put_blockhash = put_with_policy (\<lambda>_ _. None),
      parse_signature = (\<lambda>t. if t = ''t'' then Inr (Signature [11, 13])
        else if t = ''u'' then Inr (Signature [9]) else Inl ''bad signature''),
      parse_hash = (\<lambda>t. if t = ''h'' then Inr (Hash [1]) else Inl ''bad hash''),
      show_hash = (\<lambda>_. ''h''),
      default_account_config = JNull,
      default_transaction_config = JNull,
      default_commitment = JNull,
      default_send_config = \<lparr>send_encoding = None, send_options = JNull\<rparr>,
      show_encoding = (\<lambda>_. ''json''),
      bs58_decode = (\<lambda>t. if t = ''t'' then Inr [11, 13] else Inr [11, 12]),
      base64_decode = (\<lambda>t. Inl ''bad padding''),
      deserialize_transaction = (\<lambda>bs. Inr (VersionedTransaction bs)),
      static_account_keys = (\<lambda>t. case t of VersionedTransaction bs \<Rightarrow> map (\<lambda>b. Pubkey [b]) bs),
      is_maybe_writable = (\<lambda>_ i. i < 2),
      get_signature = (\<lambda>t. case t of VersionedTransaction bs \<Rightarrow> Signature bs),
      identity_order = id,
      completion_order = rev,
      get_ui_account = (\<lambda>c _ _. Inr \<lparr>context_slot = 60, response_value = Some (JString (client_url c))\<rparr>),
      get_multiple_ui_accounts = (\<lambda>c ks _.
        Inr \<lparr>context_slot = 60, response_value = map (\<lambda>_. Some (JString (client_url c))) ks\<rparr>),
      get_balance = (\<lambda>_ _ _. Inr \<lparr>context_slot = 60, response_value = 5\<rparr>),
      get_token_account_balance = (\<lambda>_ _ _. Inl ''not a token account''),
      get_signature_statuses = (\<lambda>_ sigs. Inr \<lparr>context_slot = 60, response_value = map (\<lambda>_. None) sigs\<rparr>),
      get_transaction_details = (\<lambda>_ _ _. Inr JNull),
      check_blockhash = (\<lambda>_ _ _. Inr True),
      get_latest_blockhash = (\<lambda>_. Inr (Hash [1], 300)),
      get_signatures_for_address = (\<lambda>_ _ _. Inr []),
      send_transaction_to = (\<lambda>_ t _. Inr (case t of VersionedTransaction bs \<Rightarrow> Signature bs))\<rparr>"

lemma sample_decode:
  "decode_transaction sample_http_env
     (unwrap_or Base58 (send_encoding (unwrap_or (default_send_config sample_http_env) None))) ''t''
     = Inr [11, 13]"
  "deserialize_transaction sample_http_env [11, 13] = Inr (VersionedTransaction [11, 13])"
  by (simp_all add: sample_http_env_def unwrap_or_def decode_transaction_def)

lemma sample_pda: "pda_for sample_deleg_env (Pubkey k) = Pubkey k"
  by (simp add: pda_for_def sample_deleg_env_def delegation_record_pda_from_delegated_account_def)

lemma sample_lookup_hit:
  assumes "db (delegations s) (Pubkey k) = Some e" and "slot e \<noteq> 0"
  shows "lookup_authority sample_http_env (Pubkey k) s = (record_authority (delegation e), s)"
proof -
  have "deleg sample_http_env = sample_deleg_env" by (simp add: sample_http_env_def)
  with assms show ?thesis
    by (simp add: lookup_authority_def get_delegation_authority_def get_record_def sample_pda
        get_record_loop_hit)
qed

lemma sample_lookups:
  "lookup_authority sample_http_env (Pubkey [11]) sample_server = (Some (Pubkey [1]), sample_server)"
  "lookup_authority sample_http_env (Pubkey [12]) sample_server = (Some (Pubkey [2]), sample_server)"
  "lookup_authority sample_http_env (Pubkey [13]) sample_server = (None, sample_server)"
  by (subst sample_lookup_hit, simp add: sample_server_def,
      simp_all add: sample_delegated_def fetched_entry_def record_authority_def)+

lemma sample_writable:
  "writable_keys sample_http_env (VersionedTransaction [11, 13]) = [Pubkey [11], Pubkey [13]]"
  by (simp add: writable_keys_def sample_http_env_def)

lemma sample_verdict:
  "transaction_verdict sample_http_env (VersionedTransaction [11, 13]) sample_server = Inr (Some (Pubkey [1]))"
  by (simp add: transaction_verdict_def sample_writable sample_lookups agreed_validator_def map_filter_simps)

lemma sample_table_er1:
  "ephemeral_handle (Pubkey [1]) (table sample_server)
     = Some \<lparr>handle_rpc = metrics_client ''er1'' ''er'', handle_ws = ''er1''\<rparr>"
  "wf_base (table sample_server)"
  by (simp_all add: sample_server_def table_def delegations_new_def sample_er_table_def sample_node_def
      ephemeral_handle_def wf_base_def sample_table_def)

theorem send_transaction_follows_delegations_witness:
  "forwarded (snd (send_transaction sample_http_env ''t'' None sample_server))
     = [(metrics_client ''er1'' ''er'', CallSend (VersionedTransaction [11, 13]))]"
proof -
  obtain r s' where rs: "send_transaction sample_http_env ''t'' None sample_server = (r, s')" by fastforce
  from send_transaction_follows_delegations [OF sample_decode rs sample_table_er1(2)]
  have "forwarded s' = forwarded sample_server
      @ [(metrics_client ''er1'' ''er'', CallSend (VersionedTransaction [11, 13]))]"
    by (simp add: sample_verdict sample_table_er1)
  then show ?thesis by (simp add: rs) (simp add: sample_server_def)
qed

lemma sent_by_route:
  assumes "decode_transaction E (unwrap_or Base58 (send_encoding (unwrap_or (default_send_config E) params)))
             txn_str = Inr bytes"
    and "deserialize_transaction E bytes = Inr txn"
    and "send_transaction E txn_str params s = (Inr r, s')"
  obtains h where "fst (route_transaction E txn s) = Inr h"
    and "forwarded s' = forwarded s @ [(handle_rpc h, CallSend txn)]"
    and "transactions s' = track (put_transaction E) (get_signature E txn) h (transactions s)"
proof -
  obtain rr s1 where route: "route_transaction E txn s = (rr, s1)" by fastforce
  then have view: "stable_view s1 = stable_view s" using route_transaction_cases [of E txn s] by simp
  note same = stable_viewD(1,3) [OF view]
  obtain h where "rr = Inr h" and "s' = s1\<lparr>forwarded := forwarded s1 @ [(handle_rpc h, CallSend txn)],
                transactions := track (put_transaction E) (get_signature E txn) h (transactions s1)\<rparr>"
    using send_transaction_decoded [OF assms(1,2), of s] assms(3) route
    by (auto simp: raise_def split: sum.splits)
  then show thesis using that route same by simp
qed

lemma sent_and_tracked:
  assumes "hash_cache (put_transaction E)"
    and "decode_transaction E (unwrap_or Base58 (send_encoding (unwrap_or (default_send_config E) params)))
             txn_str = Inr bytes"
    and "deserialize_transaction E bytes = Inr txn"
    and "get_transaction (get_signature E txn) (transactions s) = None"
    and "send_transaction E txn_str params s = (Inr r, s')"
  shows "\<exists>h. fst (route_transaction E txn s) = Inr h
     \<and> forwarded s' = forwarded s @ [(handle_rpc h, CallSend txn)]
     \<and> get_transaction (get_signature E txn) (transactions s') = Some h"
  using sent_by_route [OF assms(2,3,5)] get_after_track [OF assms(1)] assms(4) by metis

text \<open>C9: After a successful send of a transaction that was not tracked yet, asking for that transaction
  goes to the upstream it was sent to, once.\<close>

theorem sent_transaction_is_found:
  assumes "hash_cache (put_transaction E)"
    and "decode_transaction E (unwrap_or Base58 (send_encoding (unwrap_or (default_send_config E) params)))
             txn_str = Inr bytes"
    and "deserialize_transaction E bytes = Inr txn"
    and "get_transaction (get_signature E txn) (transactions s) = None"
    and "send_transaction E txn_str params s = (Inr r, s')"
    and "parse_signature E sig_str = Inr (get_signature E txn)"
  shows "\<exists>c. forwarded s' = forwarded s @ [(c, CallSend txn)]
     \<and> forwarded (snd (transaction E sig_str q s')) = forwarded s' @ [(c, CallTransaction (get_signature E txn))]"
  using sent_and_tracked [OF assms(1-5)] assms(6) by (auto simp: transaction_def forward_def)

lemma sample_sent:
  "\<exists>r s'. send_transaction sample_http_env ''t'' None sample_server = (Inr r, s')"
proof -
  have "fst (route_transaction sample_http_env (VersionedTransaction [11, 13]) sample_server)
      = Inr \<lparr>handle_rpc = metrics_client ''er1'' ''er'', handle_ws = ''er1''\<rparr>"
    using route_transaction_cases [of sample_http_env "VersionedTransaction [11, 13]" sample_server]
    by (simp add: sample_verdict sample_table_er1)
  then show ?thesis
    by (cases "route_transaction sample_http_env (VersionedTransaction [11, 13]) sample_server")
       (simp add: send_transaction_decoded [OF sample_decode], simp add: sample_http_env_def)
qed

lemma sample_sent_transactions:
  assumes "send_transaction sample_http_env ''t'' None sample_server = (Inr r, s')"
  shows "tx_cache (transactions s') sig
    = (if sig = Signature [11, 13] then Some \<lparr>handle_rpc = metrics_client ''er1'' ''er'', handle_ws = ''er1''\<rparr>
       else tx_cache (transactions sample_server) sig)"
proof -
  obtain h where "fst (route_transaction sample_http_env (VersionedTransaction [11, 13]) sample_server) = Inr h"
    and tx: "transactions s' = track (put_transaction sample_http_env)
      (get_signature sample_http_env (VersionedTransaction [11, 13])) h (transactions sample_server)"
    using sent_by_route [OF sample_decode assms] by metis
  moreover have "fst (route_transaction sample_http_env (VersionedTransaction [11, 13]) sample_server)
      = Inr \<lparr>handle_rpc = metrics_client ''er1'' ''er'', handle_ws = ''er1''\<rparr>"
    using route_transaction_cases [of sample_http_env "VersionedTransaction [11, 13]" sample_server]
    by (simp add: sample_verdict sample_table_er1)
  ultimately show ?thesis
    by (simp add: sample_http_env_def track_def put_with_policy_def sample_server_def
        forwarded_transactions_new_def Let_def)
qed

theorem sent_transaction_is_found_witness:
  "\<exists>s' c. forwarded (snd (transaction sample_http_env ''t'' None s'))
     = [(c, CallSend (VersionedTransaction [11, 13])), (c, CallTransaction (Signature [11, 13]))]"
proof -
  obtain r s' where sent: "send_transaction sample_http_env ''t'' None sample_server = (Inr r, s')"
    using sample_sent by blast
  have sig: "get_signature sample_http_env (VersionedTransaction [11, 13]) = Signature [11, 13]"
    "parse_signature sample_http_env ''t'' = Inr (Signature [11, 13])"
    "put_transaction sample_http_env = put_with_policy (\<lambda>_ _. None)"
    by (simp_all add: sample_http_env_def)
  have "hash_cache (put_transaction sample_http_env)"
    unfolding sig(3) by (rule policy_cache.hash_cache_axioms)
  moreover have "get_transaction (get_signature sample_http_env (VersionedTransaction [11, 13]))
      (transactions sample_server) = None"
    by (simp add: sample_server_def forwarded_transactions_new_def get_transaction_def Let_def)
  ultimately obtain c where
    "forwarded s' = forwarded sample_server @ [(c, CallSend (VersionedTransaction [11, 13]))]"
    "forwarded (snd (transaction sample_http_env ''t'' None s'))
       = forwarded s' @ [(c, CallTransaction (Signature [11, 13]))]"
    using sent_transaction_is_found [OF _ sample_decode _ sent, where sig_str = "''t''" and q = None]
      sig by auto
  then show ?thesis by (auto simp: sample_server_def intro!: exI [of _ s'] exI [of _ c])
qed


section \<open>Reading many accounts\<close>

text \<open>Which (status, position, key) triples a grouping holds.\<close>

definition grouped ::
  "(pubkey \<times> (nat \<times> pubkey) list) list \<times> (nat \<times> pubkey) list \<Rightarrow> (pubkey option \<times> nat \<times> pubkey) set" where
  "grouped gs =
     {(Some i, x) | i x ks. (i, ks) \<in> set (fst gs) \<and> x \<in> set ks} \<union> {(None, x) | x. x \<in> set (snd gs)}"

lemma grouped_iff:
  "(st, x) \<in> grouped (d, u) \<longleftrightarrow>
     (case st of None \<Rightarrow> x \<in> set u | Some i \<Rightarrow> \<exists>ks. (i, ks) \<in> set d \<and> x \<in> set ks)"
  by (cases st; cases x) (auto simp: grouped_def)

lemma push_members:
  "(\<exists>ks. (j, ks) \<in> set (group_push i x d) \<and> y \<in> set ks)
     \<longleftrightarrow> (j = i \<and> y = x) \<or> (\<exists>ks. (j, ks) \<in> set d \<and> y \<in> set ks)"
proof (induction d)
  case (Cons g d)
  obtain i' xs where "g = (i', xs)" by fastforce
  then show ?case using Cons by (cases "i' = i") auto
qed auto

lemma grouped_push: "grouped (group_push i x d, u) = insert (Some i, x) (grouped (d, u))"
  using push_members [of _ i x d] by (auto simp: grouped_def)

lemma push_identities: "fst ` set (group_push i x d) = insert i (fst ` set d)"
  by (induction i x d rule: group_push.induct) auto

lemma grouped_accounts:
  "grouped (group_accounts xs gs) = {(st, i, k) | st i k. (i, st, k) \<in> set xs} \<union> grouped gs"
proof (induction xs gs rule: group_accounts.induct)
  case (2 i status key rest d u)
  have none: "grouped (d, u @ [(i, key)]) = insert (None, i, key) (grouped (d, u))"
    by (auto simp: grouped_def)
  show ?case
    by (cases status) (auto simp: 2 grouped_push none)
qed auto

lemma group_identities:
  "fst ` set (fst (group_accounts xs gs)) =
     {i. \<exists>n k. (n, Some i, k) \<in> set xs} \<union> fst ` set (fst gs)"
proof (induction xs gs rule: group_accounts.induct)
  case (2 i status key rest d u)
  then show ?case by (cases status) (auto simp: push_identities)
qed auto

lemma er_requests_routed:
  "(\<forall>i \<in> fst ` set gs. ephemeral_client i rt \<noteq> None) \<Longrightarrow>
     er_requests rt gs = Inr (map (\<lambda>(i, ks). (the (ephemeral_client i rt), ks)) gs)"
  by (induction rt gs rule: er_requests.induct) auto

lemma er_requests_unrouted:
  "\<exists>i \<in> fst ` set gs. ephemeral_client i rt = None \<Longrightarrow>
     \<exists>i \<in> fst ` set gs. ephemeral_client i rt = None \<and> er_requests rt gs = Inl (UnknownErNode i)"
proof (induction rt gs rule: er_requests.induct)
  case (2 rt identity keys gs)
  show ?case
  proof (cases "ephemeral_client identity rt")
    case (Some c)
    with 2(2) have "\<exists>i \<in> fst ` set gs. ephemeral_client i rt = None" by auto
    then obtain i where "i \<in> fst ` set gs" "ephemeral_client i rt = None"
      "er_requests rt gs = Inl (UnknownErNode i)"
      using 2(1) [of c] Some by auto
    with Some show ?thesis by (intro bexI [of _ i]) auto
  qed simp
qed simp

text \<open>Every answer lands at the position of its key: \<open>ts\<close> is the intended response.\<close>

lemma store_accounts_target:
  assumes "\<forall>x \<in> set xs. snd x = ts ! fst (fst x)"
  shows "length (store_accounts xs resp) = length resp
    \<and> (\<forall>i < length resp. store_accounts xs resp ! i =
         (if i \<in> (fst \<circ> fst) ` set xs then ts ! i else resp ! i))"
  using assms
proof (induction xs resp rule: store_accounts.induct)
  case (2 index key account rest resp)
  then show ?case by (auto simp: nth_list_update)
qed simp

definition covered :: "account_group list \<Rightarrow> nat set" where
  "covered rs = {i. \<exists>c ks k. (c, ks) \<in> set rs \<and> (i, k) \<in> set ks}"

lemma covered_Cons: "covered ((c, ks) # rs) = fst ` set ks \<union> covered rs"
proof -
  have "i \<in> fst ` set ks \<longleftrightarrow> (\<exists>k. (i, k) \<in> set ks)" for i by (auto simp: image_iff intro: rev_bexI)
  then show ?thesis unfolding covered_def by (simp add: set_eq_iff) blast
qed

lemma collect_accounts_target:
  assumes "\<And>c ks. \<exists>sl. get_multiple_ui_accounts E c ks config
             = Inr \<lparr>context_slot = sl, response_value = map (acct c) ks\<rparr>"
    and "\<forall>c ks i k. (c, ks) \<in> set rs \<longrightarrow> (i, k) \<in> set ks \<longrightarrow> acct c k = ts ! i"
  shows "\<exists>out sl'. collect_accounts E config rs (resp, sl) = Inr (out, sl')
    \<and> length out = length resp
    \<and> (\<forall>i < length resp. out ! i = (if i \<in> covered rs then ts ! i else resp ! i))"
  using assms(2)
proof (induction rs arbitrary: resp sl)
  case Nil
  then show ?case by (simp add: covered_def)
next
  case (Cons r rs)
  obtain c ks where r: "r = (c, ks)" by fastforce
  obtain sl1 where ans: "get_multiple_ui_accounts E c (map snd ks) config
      = Inr \<lparr>context_slot = sl1, response_value = map (acct c) (map snd ks)\<rparr>"
    using assms(1) by blast
  let ?xs = "zip ks (map (acct c) (map snd ks))"
  have xs: "set ?xs = (\<lambda>x. (x, acct c (snd x))) ` set ks"
    by (simp add: zip_map2 zip_same_conv_map o_def)
  have idx: "(fst \<circ> fst) ` set ?xs = fst ` set ks" unfolding xs by (simp add: image_image)
  have "\<forall>x \<in> set ?xs. snd x = ts ! fst (fst x)"
    unfolding xs using Cons.prems r by auto
  note stored = store_accounts_target [OF this, of resp, unfolded idx]
  have tail: "\<forall>c ks i k. (c, ks) \<in> set rs \<longrightarrow> (i, k) \<in> set ks \<longrightarrow> acct c k = ts ! i"
    using Cons.prems by simp
  obtain out sl' where rest: "collect_accounts E config rs (store_accounts ?xs resp, max sl sl1) = Inr (out, sl')"
    and len: "length out = length (store_accounts ?xs resp)"
    and nth: "\<forall>i < length (store_accounts ?xs resp).
      out ! i = (if i \<in> covered rs then ts ! i else store_accounts ?xs resp ! i)"
    using Cons.IH [OF tail, of "store_accounts ?xs resp" "max sl sl1"] by blast
  have cov: "covered (r # rs) = fst ` set ks \<union> covered rs" by (simp add: r covered_Cons)
  show ?case
  proof (intro exI conjI)
    show "collect_accounts E config (r # rs) (resp, sl) = Inr (out, sl')"
      using rest by (simp add: r ans)
    show "length out = length resp" using len stored by simp
    show "\<forall>i < length resp. out ! i = (if i \<in> covered (r # rs) then ts ! i else resp ! i)"
      using nth stored by (simp add: cov)
  qed
qed

text \<open>The upstream that serves an account with a given lookup result.\<close>

definition client_for :: "http_server \<Rightarrow> pubkey option \<Rightarrow> rpc_client" where
  "client_for s status =
     (case status of
        Some i \<Rightarrow> the (ephemeral_client i (table s))
      | None \<Rightarrow> client (fst (next_base_chain s)))"

definition account_requests ::
  "http_server \<Rightarrow> (pubkey \<times> (nat \<times> pubkey) list) list \<Rightarrow> (nat \<times> pubkey) list \<Rightarrow> account_group list" where
  "account_requests s d u =
     map (\<lambda>(i, ks). (client_for s (Some i), ks)) d @ (if u = [] then [] else [(client_for s None, u)])"

lemma account_requests_grouped:
  "((\<exists>ks. (c, ks) \<in> set (account_requests s d u) \<and> x \<in> set ks)
    \<longleftrightarrow> (\<exists>st. (st, x) \<in> grouped (d, u) \<and> c = client_for s st))"
proof -
  have "(\<exists>ks. (c, ks) \<in> set (map (\<lambda>(i, ks). (client_for s (Some i), ks)) d) \<and> x \<in> set ks)
      \<longleftrightarrow> (\<exists>i ks. (i, ks) \<in> set d \<and> c = client_for s (Some i) \<and> x \<in> set ks)"
    by auto
  then have "(\<exists>ks. (c, ks) \<in> set (account_requests s d u) \<and> x \<in> set ks)
      \<longleftrightarrow> (\<exists>i ks. (i, ks) \<in> set d \<and> c = client_for s (Some i) \<and> x \<in> set ks)
          \<or> (x \<in> set u \<and> c = client_for s None)"
    unfolding account_requests_def by (cases "u = []") (simp_all del: set_map, blast)
  then show ?thesis by (auto simp: grouped_iff split_option_ex)
qed

lemma set_enumerate_zip:
  "length xs = length ys \<Longrightarrow> set (enumerate 0 (zip xs ys)) = {(i, xs ! i, ys ! i) | i. i < length ys}"
  by (force simp: enumerate_eq_zip set_zip)

lemma lookup_all_length: "length (fst (lookup_all lookup keys s)) = length keys"
  by (induction keys arbitrary: s) (auto simp: Let_def split_beta)

lemma grouped_lookups:
  assumes "group_accounts (enumerate 0 (zip statuses keys)) ([], []) = (d, u)" and "length statuses = length keys"
  shows "grouped (d, u) = {(statuses ! i, i, keys ! i) | i. i < length keys}"
    and "fst ` set d = {i. Some i \<in> set statuses}"
  using grouped_accounts [of "enumerate 0 (zip statuses keys)" "([], [])"]
    group_identities [of "enumerate 0 (zip statuses keys)" "([], [])"] assms
  by (auto simp: grouped_def set_enumerate_zip in_set_conv_nth)

lemma requests_grouped:
  assumes "\<And>gs. mset (identity_order E gs) = mset gs" and "\<And>rs. mset (completion_order E rs) = mset rs"
  shows "(\<exists>ks. (c, ks) \<in> set (completion_order E (account_requests s1 (identity_order E d) u)) \<and> x \<in> set ks)
    \<longleftrightarrow> (\<exists>st. (st, x) \<in> grouped (d, u) \<and> c = client_for s1 st)"
proof -
  have "set (identity_order E d) = set d" using assms(1) by (metis set_mset_mset)
  then have "grouped (identity_order E d, u) = grouped (d, u)" by (simp add: grouped_def)
  moreover have "set (completion_order E rs) = set rs" for rs using assms(2) by (metis set_mset_mset)
  ultimately show ?thesis using account_requests_grouped [of c s1 "identity_order E d" u x] by simp
qed

text \<open>C4: When every account's node is known and the upstreams answer, reading many accounts in one call
  returns at every position what the upstream responsible for that account answers for it, however
  the accounts are grouped by node and in whatever order the grouped requests complete.\<close>

theorem multiple_accounts_pointwise:
  assumes orders: "\<And>gs. mset (identity_order E gs) = mset gs" "\<And>rs. mset (completion_order E rs) = mset rs"
    and answers: "\<And>c ks. \<exists>sl. get_multiple_ui_accounts E c ks (unwrap_or (default_account_config E) params)
             = Inr \<lparr>context_slot = sl, response_value = map (acct c) ks\<rparr>"
    and looked_up: "lookup_all (lookup_authority E) (map serde_pubkey_inner pubkeys) s = (statuses, s1)"
    and routed: "\<And>i. Some i \<in> set statuses \<Longrightarrow> ephemeral_client i (table s1) \<noteq> None"
  shows "\<exists>sl s'. multiple_accounts E pubkeys params s =
     (Inr \<lparr>context_slot = sl,
           response_value = map2 (\<lambda>st pk. acct (client_for s1 st) (serde_pubkey_inner pk)) statuses pubkeys\<rparr>,
      s')"
proof -
  let ?keys = "map serde_pubkey_inner pubkeys" and ?cfg = "unwrap_or (default_account_config E) params"
  let ?items = "enumerate 0 (zip statuses ?keys)"
  let ?ts = "map2 (\<lambda>st pk. acct (client_for s1 st) (serde_pubkey_inner pk)) statuses pubkeys"
  have len: "length statuses = length pubkeys"
    using lookup_all_length [of "lookup_authority E" ?keys s] by (simp add: looked_up)
  obtain d u where du: "group_accounts ?items ([], []) = (d, u)" by fastforce
  have grouped: "grouped (d, u) = {(statuses ! i, i, ?keys ! i) | i. i < length pubkeys}"
    and ids: "fst ` set d = {i. Some i \<in> set statuses}"
    using grouped_lookups [OF du] len by simp_all
  let ?d = "identity_order E d"
  have same_set: "set ?d = set d" using orders(1) by (metis set_mset_mset)
  then have "er_requests (table s1) ?d = Inr (map (\<lambda>(i, ks). (client_for s1 (Some i), ks)) ?d)"
    using er_requests_routed [of ?d "table s1"] routed ids by (simp add: client_for_def)
  note ers = this
  let ?rs = "completion_order E (account_requests s1 ?d u)"
  note members = requests_grouped [OF orders, of _ s1 d u]
  have right: "acct c k = ?ts ! i" if "(c, ks) \<in> set ?rs" "(i, k) \<in> set ks" for c ks i k
  proof -
    from that members [of c "(i, k)"] obtain st where "(st, i, k) \<in> grouped (d, u)" "c = client_for s1 st"
      by blast
    then show ?thesis using len by (auto simp: grouped)
  qed
  have "i \<in> covered ?rs \<longleftrightarrow> (\<exists>k st. (st, i, k) \<in> grouped (d, u))" for i
    using members [of _ "(i, _)"] unfolding covered_def by blast
  then have cov: "covered ?rs = {..< length pubkeys}" by (auto simp: grouped)
  obtain out sl where out: "collect_accounts E ?cfg ?rs (replicate (length pubkeys) None, 0) = Inr (out, sl)"
    "length out = length pubkeys" "\<forall>i < length pubkeys. out ! i = ?ts ! i"
    using collect_accounts_target [of E ?cfg acct ?rs ?ts "replicate (length pubkeys) None" 0, OF answers] right
    by (auto simp: cov)
  then have "out = ?ts" using len by (intro nth_equalityI) auto
  with out(1) have result: "collect_accounts E ?cfg ?rs (replicate (length pubkeys) None, 0) = Inr (?ts, sl)"
    by simp
  show ?thesis
  proof (cases "u = []")
    case True
    with result show ?thesis
      by (simp add: multiple_accounts_def looked_up du ers Let_def account_requests_def)
  next
    case False
    with result show ?thesis
      by (cases "next_base_chain s1")
         (simp add: multiple_accounts_def looked_up du ers Let_def account_requests_def client_for_def)
  qed
qed

lemma sample_lookup_all:
  "lookup_all (lookup_authority sample_http_env)
     (map serde_pubkey_inner [SerdePubkey (Pubkey [13]), SerdePubkey (Pubkey [12]), SerdePubkey (Pubkey [11])])
     sample_server = ([None, Some (Pubkey [2]), Some (Pubkey [1])], sample_server)"
  by (simp add: sample_lookups)

theorem multiple_accounts_pointwise_witness:
  "\<exists>sl s'. multiple_accounts sample_http_env
      [SerdePubkey (Pubkey [13]), SerdePubkey (Pubkey [12]), SerdePubkey (Pubkey [11])] None sample_server
    = (Inr \<lparr>context_slot = sl,
            response_value = [Some (JString ''b''), Some (JString ''er2''), Some (JString ''er1'')]\<rparr>, s')"
proof -
  have "\<exists>sl s'. multiple_accounts sample_http_env
      [SerdePubkey (Pubkey [13]), SerdePubkey (Pubkey [12]), SerdePubkey (Pubkey [11])] None sample_server
    = (Inr \<lparr>context_slot = sl,
            response_value = map2 (\<lambda>st pk. Some (JString (client_url (client_for sample_server st))))
              [None, Some (Pubkey [2]), Some (Pubkey [1])]
              [SerdePubkey (Pubkey [13]), SerdePubkey (Pubkey [12]), SerdePubkey (Pubkey [11])]\<rparr>, s')"
    by (rule multiple_accounts_pointwise [OF _ _ _ sample_lookup_all,
          where acct = "\<lambda>c k. Some (JString (client_url c))"])
       (auto simp: sample_http_env_def sample_server_def table_def delegations_new_def sample_er_table_def
         ephemeral_client_def)
  then show ?thesis
    by (simp add: client_for_def sample_server_def table_def delegations_new_def sample_er_table_def
        ephemeral_client_def sample_node_def metrics_client_def next_base_chain_def base_chain_def
        sample_table_def sample_upstream_def Let_def)
qed

text \<open>C28: If some account of a multi-account read is delegated to a node without a route, the whole call
  fails with the error for such a node, and no upstream is asked anything.\<close>

theorem multiple_accounts_unknown_node:
  assumes "\<And>gs. mset (identity_order E gs) = mset gs"
    and "lookup_all (lookup_authority E) (map serde_pubkey_inner pubkeys) s = (statuses, s1)"
    and "Some i \<in> set statuses" and "ephemeral_client i (table s) = None"
  shows "\<exists>j. Some j \<in> set statuses \<and> ephemeral_client j (table s) = None
    \<and> fst (multiple_accounts E pubkeys params s) = raise E (UnknownErNode j)
    \<and> forwarded (snd (multiple_accounts E pubkeys params s)) = forwarded s"
proof -
  let ?keys = "map serde_pubkey_inner pubkeys"
  let ?items = "enumerate 0 (zip statuses ?keys)"
  have view: "stable_view s1 = stable_view s"
    using authority_lookup.lookup_all_frame [of E ?keys s] assms(2) by simp
  have len: "length statuses = length pubkeys"
    using lookup_all_length [of "lookup_authority E" ?keys s] by (simp add: assms(2))
  obtain d u where du: "group_accounts ?items ([], []) = (d, u)" by fastforce
  have ids: "fst ` set d = {i. Some i \<in> set statuses}"
    using group_identities [of ?items "([], [])"] len
    by (auto simp: du set_enumerate_zip in_set_conv_nth)
  moreover have "set (identity_order E d) = set d" using assms(1) by (metis set_mset_mset)
  ultimately have ids': "fst ` set (identity_order E d) = {i. Some i \<in> set statuses}" by simp
  with assms(3,4) have "\<exists>i \<in> fst ` set (identity_order E d). ephemeral_client i (table s1) = None"
    using stable_viewD(4) [OF view] by auto
  from er_requests_unrouted [OF this] obtain j where "Some j \<in> set statuses"
    "ephemeral_client j (table s1) = None"
    and err: "er_requests (table s1) (identity_order E d) = Inl (UnknownErNode j)"
    using ids' by auto
  moreover from err have "multiple_accounts E pubkeys params s = (raise E (UnknownErNode j), s1)"
    by (simp add: multiple_accounts_def assms(2) du Let_def)
  ultimately show ?thesis using stable_viewD(3,4) [OF view] by auto
qed

theorem multiple_accounts_unknown_node_witness:
  "\<exists>j. fst (multiple_accounts sample_http_env [SerdePubkey (Pubkey [11])] None
              (sample_server\<lparr>delegations := (delegations sample_server)\<lparr>routes := sample_table\<rparr>\<rparr>))
        = raise sample_http_env (UnknownErNode j)"
proof -
  let ?s = "sample_server\<lparr>delegations := (delegations sample_server)\<lparr>routes := sample_table\<rparr>\<rparr>"
  have "lookup_authority sample_http_env (Pubkey [11]) ?s = (Some (Pubkey [1]), ?s)"
    by (subst sample_lookup_hit, simp add: sample_server_def)
       (simp_all add: sample_delegated_def fetched_entry_def record_authority_def)
  then have "lookup_all (lookup_authority sample_http_env) (map serde_pubkey_inner [SerdePubkey (Pubkey [11])]) ?s
      = ([Some (Pubkey [1])], ?s)"
    by simp
  from multiple_accounts_unknown_node [OF _ this, of "Pubkey [1]" None] show ?thesis
    by (auto simp: sample_http_env_def table_def ephemeral_client_def sample_table_def)
qed


section \<open>Single accounts, blockhashes and statuses\<close>

text \<open>What the two bounds of a signature history parse to; the first malformed one is reported.\<close>

definition history_bounds ::
  "http_env \<Rightarrow> rpc_signatures_config option \<Rightarrow> (router_error, signature option \<times> signature option) result" where
  "history_bounds E cfg =
     (case cfg of
        None \<Rightarrow> Inr (None, None)
      | Some q \<Rightarrow>
          (case parse_optional E (cfg_before q) of
             Inl e \<Rightarrow> Inl e
           | Inr b \<Rightarrow> map_sum id (Pair b) (parse_optional E (cfg_until q))))"

text \<open>C27: A call about a single account that is cached as delegated goes to the node it is delegated to.
  With a route, the account, balance and token balance reads each send exactly one request, to that
  node, and so does the signature history if the bounds given with it are well formed; with a
  malformed bound it fails with the decoding error and sends nothing.  Without a route each of the
  four fails with the same error, whatever the bounds, and sends nothing.\<close>

theorem delegated_account_calls:
  assumes "lookup_authority E (serde_pubkey_inner pk) s = (Some i, s1)"
  shows "forwarded s1 = forwarded s \<and>
    (case ephemeral_client i (table s) of
      Some c \<Rightarrow>
        forwarded (snd (account_info E pk p s)) = forwarded s @ [(c, CallAccount (serde_pubkey_inner pk))]
        \<and> forwarded (snd (balance E pk q s)) = forwarded s @ [(c, CallBalance (serde_pubkey_inner pk))]
        \<and> forwarded (snd (token_account_balance E pk q s))
            = forwarded s @ [(c, CallTokenBalance (serde_pubkey_inner pk))]
        \<and> (case history_bounds E cfg of
             Inl e \<Rightarrow> signatures_for_address E pk cfg s = (raise E e, s1)
           | Inr _ \<Rightarrow> forwarded (snd (signatures_for_address E pk cfg s))
                        = forwarded s @ [(c, CallSignaturesForAddress (serde_pubkey_inner pk))])
    | None \<Rightarrow>
        account_info E pk p s = (raise E (UnknownErNode i), s1)
        \<and> balance E pk q s = (raise E (UnknownErNode i), s1)
        \<and> token_account_balance E pk q s = (raise E (UnknownErNode i), s1)
        \<and> signatures_for_address E pk cfg s = (raise E (UnknownErNode i), s1))"
proof -
  have "stable_view s1 = stable_view s"
    using authority_lookup.lookup_frame [of E "serde_pubkey_inner pk" s] assms by simp
  note same = stable_viewD(3,4) [OF this]
  have "resolve_client E (serde_pubkey_inner pk) s
      = (ok_or (ephemeral_client i (table s)) (UnknownErNode i), s1)"
    using assms same by (simp add: resolve_client_def)
  then show ?thesis
    using same
    by (auto simp: account_info_def balance_def token_account_balance_def signatures_for_address_def
        history_bounds_def forward_def Let_def unwrap_or_def parse_optional_def
        split: option.splits sum.splits)
qed

theorem delegated_account_calls_witness:
  "forwarded (snd (balance sample_http_env (SerdePubkey (Pubkey [11])) None sample_server))
     = [(metrics_client ''er1'' ''er'', CallBalance (Pubkey [11]))]"
proof -
  have "ephemeral_client (Pubkey [1]) (table sample_server) = Some (metrics_client ''er1'' ''er'')"
    using sample_table_er1(1) by (auto simp: ephemeral_client_def ephemeral_handle_def)
  moreover have "forwarded sample_server = []" by (simp add: sample_server_def)
  ultimately show ?thesis
    using delegated_account_calls [of sample_http_env "SerdePubkey (Pubkey [11])" sample_server
        "Pubkey [1]" sample_server None None None] sample_lookups(1) by simp
qed

lemma stable_view_next: "next_base_chain s = (b, t) \<Longrightarrow> stable_view t = stable_view s"
  by (metis snd_conv stable_view_base_chain)

lemma blockhash_after_remember:
  assumes "hash_cache (put_blockhash E)" and "blockhashes s h = None"
    and "parse_hash E t = Inr h"
  shows "forwarded (snd (is_blockhash_valid E t p (remember_blockhash E h c s)))
    = forwarded s @ [(c, CallBlockhashValid h)]"
  using hash_cache.put_fresh [OF assms(1), of "blockhashes s" h c, OF assms(2)] assms(3)
  by (simp add: is_blockhash_valid_def remember_blockhash_def forward_def)

text \<open>C20: A fresh blockhash handed out for a set of accounts comes from the node the accounts agree on,
  and asking later whether it is valid asks the upstream it came from.\<close>

theorem blockhash_round_trip:
  assumes "hash_cache (put_blockhash E)"
    and "blockhash_for_accounts E accounts s = (Inr r, s')"
    and "\<And>h c height. get_latest_blockhash E c = Inr (h, height) \<Longrightarrow>
           blockhashes s h = None \<and> parse_hash E (show_hash E h) = Inr h"
  shows "\<exists>c h. forwarded s' = forwarded s @ [(c, CallLatestBlockhash)] \<and> blockhash r = show_hash E h
     \<and> forwarded (snd (is_blockhash_valid E (blockhash r) p s')) = forwarded s' @ [(c, CallBlockhashValid h)]
     \<and> (case agreed_validator (fst (lookup_all (lookup_authority E) (map serde_pubkey_inner accounts) s)) of
          Inr (Some i) \<Rightarrow> ephemeral_client i (table s) = Some c
        | Inr None \<Rightarrow> True
        | Inl e \<Rightarrow> False)"
proof -
  let ?keys = "map serde_pubkey_inner accounts"
  obtain v s1 where scan: "scan_validators (lookup_authority E) ?keys None s = (Inr v, s1)"
    using assms(2) by (auto simp: blockhash_for_accounts_def raise_def split: prod.splits sum.splits)
  have agreed: "agreed_validator (fst (lookup_all (lookup_authority E) ?keys s)) = Inr v"
    using scan_agreed [of "lookup_authority E" ?keys None s] scan by simp
  have view1: "stable_view s1 = stable_view s"
    using authority_lookup.scan_frame [of E ?keys None s] scan by simp
  define pick where "pick = (case v of
      Some i \<Rightarrow> (ok_or (ephemeral_client i (table s1)) (UnknownErNode i), s1)
    | None \<Rightarrow> (case next_base_chain s1 of (b, s') \<Rightarrow> (Inr (client b), s')))"
  obtain c s2 where pick: "pick = (Inr c, s2)"
    using assms(2) scan by (auto simp: blockhash_for_accounts_def pick_def raise_def split: prod.splits sum.splits)
  have "stable_view s2 = stable_view s1"
    using pick stable_view_next by (auto simp: pick_def split: option.splits prod.splits)
  with view1 have view: "stable_view s2 = stable_view s" by simp
  have er: "v = Some i \<Longrightarrow> ephemeral_client i (table s) = Some c" for i
    using pick stable_viewD(4) [OF view1, of i] by (auto simp: pick_def ok_or_eq_iff)
  obtain h height where ans: "get_latest_blockhash E c = Inr (h, height)"
    and r: "r = \<lparr>blockhash = show_hash E h, last_valid_block_height = height\<rparr>"
    and s': "s' = remember_blockhash E h c (s2\<lparr>forwarded := forwarded s2 @ [(c, CallLatestBlockhash)]\<rparr>)"
    using assms(2) scan pick
    by (auto simp: blockhash_for_accounts_def pick_def [symmetric] forward_def map_err_def split: sum.splits)
  have fresh: "blockhashes s h = None" "parse_hash E (show_hash E h) = Inr h"
    using assms(3) [OF ans] by simp_all
  have "forwarded s' = forwarded s @ [(c, CallLatestBlockhash)]"
    using stable_viewD(3) [OF view] by (simp add: s' remember_blockhash_def)
  moreover have "forwarded (snd (is_blockhash_valid E (blockhash r) p s')) = forwarded s' @ [(c, CallBlockhashValid h)]"
    using blockhash_after_remember [OF assms(1), of
        "s2\<lparr>forwarded := forwarded s2 @ [(c, CallLatestBlockhash)]\<rparr>" h "show_hash E h" p c]
      fresh stable_viewD(2) [OF view] by (simp add: s' r remember_blockhash_def)
  ultimately show ?thesis
    using er by (intro exI [of _ c] exI [of _ h]) (auto simp: r agreed split: option.splits)
qed


lemma sample_blockhash:
  "blockhash_for_accounts sample_http_env [SerdePubkey (Pubkey [13]), SerdePubkey (Pubkey [12])] sample_server
    = (Inr \<lparr>blockhash = ''h'', last_valid_block_height = 300\<rparr>,
       sample_server\<lparr>forwarded := [(metrics_client ''er2'' ''er'', CallLatestBlockhash)],
                     blockhashes := [Hash [1] \<mapsto> metrics_client ''er2'' ''er'']\<rparr>)"
proof -
  have er2: "ephemeral_client (Pubkey [2]) (table sample_server) = Some (metrics_client ''er2'' ''er'')"
    by (simp add: sample_server_def table_def delegations_new_def sample_er_table_def sample_node_def
        ephemeral_client_def)
  have env: "get_latest_blockhash sample_http_env c = Inr (Hash [1], 300)"
    "show_hash sample_http_env h = ''h''"
    "put_blockhash sample_http_env = put_with_policy (\<lambda>_ _. None)" for c h
    by (simp_all add: sample_http_env_def)
  have empty: "forwarded sample_server = []" "blockhashes sample_server = Map.empty"
    by (simp_all add: sample_server_def)
  show ?thesis
    by (simp add: blockhash_for_accounts_def sample_lookups er2 env empty forward_def
        remember_blockhash_def put_with_policy_def)
qed

theorem blockhash_round_trip_witness:
  "\<exists>c h. forwarded (snd (is_blockhash_valid sample_http_env ''h'' None
          (snd (blockhash_for_accounts sample_http_env
                  [SerdePubkey (Pubkey [13]), SerdePubkey (Pubkey [12])] sample_server))))
       = [(c, CallLatestBlockhash), (c, CallBlockhashValid h)]"
proof -
  have "hash_cache (put_blockhash sample_http_env)"
    by (simp add: sample_http_env_def policy_cache.hash_cache_axioms)
  moreover have "blockhashes sample_server h = None
      \<and> parse_hash sample_http_env (show_hash sample_http_env h) = Inr h"
    if "get_latest_blockhash sample_http_env c = Inr (h, height)" for c h height
    using that by (simp add: sample_http_env_def sample_server_def)
  ultimately obtain c h where
    "forwarded (snd (is_blockhash_valid sample_http_env
         (blockhash \<lparr>blockhash = ''h'', last_valid_block_height = 300\<rparr>) None
         (sample_server\<lparr>forwarded := [(metrics_client ''er2'' ''er'', CallLatestBlockhash)],
                     blockhashes := [Hash [1] \<mapsto> metrics_client ''er2'' ''er'']\<rparr>)))
       = forwarded sample_server @ [(c, CallLatestBlockhash), (c, CallBlockhashValid h)]"
    using blockhash_round_trip [OF _ sample_blockhash, of None] by auto
  moreover have "forwarded sample_server = []" by (simp add: sample_server_def)
  ultimately show ?thesis unfolding sample_blockhash by auto
qed

text \<open>C34: The status of a transaction that was sent through the router is found only when its signature
  comes first.  After a successful send of an untracked transaction, a status call that starts with its
  signature asks the upstream the transaction went to, once and for all signatures of the call; a
  call that starts with a signature the router does not know answers with the empty list and asks
  nobody, although the transaction itself is still found by its signature.\<close>

theorem statuses_follow_first_signature:
  assumes "hash_cache (put_transaction E)"
    and "decode_transaction E (unwrap_or Base58 (send_encoding (unwrap_or (default_send_config E) params)))
             txn_str = Inr bytes"
    and "deserialize_transaction E bytes = Inr txn"
    and "get_transaction (get_signature E txn) (transactions s) = None"
    and "send_transaction E txn_str params s = (Inr r, s')"
    and "parse_signature E sig_str = Inr (get_signature E txn)" and "parse_signatures E rest = Inr sigs"
    and "parse_signature E other_str = Inr other" and "get_transaction other (transactions s') = None"
  shows "\<exists>c. forwarded s' = forwarded s @ [(c, CallSend txn)]
     \<and> forwarded (snd (signature_statuses E (sig_str # rest) s'))
         = forwarded s' @ [(c, CallSignatureStatuses (get_signature E txn # sigs))]
     \<and> signature_statuses E (other_str # sig_str # rest) s'
         = (Inr \<lparr>context_slot = 0, response_value = []\<rparr>, s')
     \<and> forwarded (snd (transaction E sig_str q s')) = forwarded s' @ [(c, CallTransaction (get_signature E txn))]"
  using sent_and_tracked [OF assms(1-5)] assms(6-9)
  by (auto simp: signature_statuses_def transaction_def forward_def)

theorem statuses_follow_first_signature_witness:
  "\<exists>s' c. forwarded (snd (signature_statuses sample_http_env [''t'', ''u''] s'))
       = [(c, CallSend (VersionedTransaction [11, 13])),
          (c, CallSignatureStatuses [Signature [11, 13], Signature [9]])]
     \<and> signature_statuses sample_http_env [''u'', ''t'', ''u''] s'
         = (Inr \<lparr>context_slot = 0, response_value = []\<rparr>, s')"
proof -
  obtain r s' where sent: "send_transaction sample_http_env ''t'' None sample_server = (Inr r, s')"
    using sample_sent by blast
  have env: "get_signature sample_http_env (VersionedTransaction [11, 13]) = Signature [11, 13]"
    "parse_signature sample_http_env ''t'' = Inr (Signature [11, 13])"
    "parse_signature sample_http_env ''u'' = Inr (Signature [9])"
    "put_transaction sample_http_env = put_with_policy (\<lambda>_ _. None)"
    by (simp_all add: sample_http_env_def)
  have cache: "hash_cache (put_transaction sample_http_env)"
    unfolding env(4) by (rule policy_cache.hash_cache_axioms)
  have none: "get_transaction sig (transactions sample_server) = None" for sig
    by (simp add: sample_server_def forwarded_transactions_new_def get_transaction_def Let_def)
  have "get_transaction (Signature [9]) (transactions s') = None"
    using sample_sent_transactions [OF sent] none by (simp add: get_transaction_def)
  with statuses_follow_first_signature [OF cache sample_decode _ sent, of "''t''" "[''u'']" "[Signature [9]]"
      "''u''" "Signature [9]" None] env none
  obtain c where "forwarded s' = forwarded sample_server @ [(c, CallSend (VersionedTransaction [11, 13]))]"
    "forwarded (snd (signature_statuses sample_http_env [''t'', ''u''] s'))
         = forwarded s' @ [(c, CallSignatureStatuses [Signature [11, 13], Signature [9]])]"
    "signature_statuses sample_http_env [''u'', ''t'', ''u''] s'
         = (Inr \<lparr>context_slot = 0, response_value = []\<rparr>, s')"
    by auto
  moreover have "forwarded sample_server = []" by (simp add: sample_server_def)
  ultimately show ?thesis by auto
qed

text \<open>The two ways to obtain a blockhash disagree on its lifetime: from one and the same upstream
  answer, the call for accounts reports the last valid block height the upstream gave, and the plain
  call reports that height plus 150 and gives the height as the context slot.\<close>

theorem blockhash_heights_differ:
  assumes "get_latest_blockhash E c = Inr (h, height)"
    and "closest E s = (Inr (node, c), s1)"
    and "next_base_chain s = (b, s2)" and "client b = c"
  shows "fst (blockhash_for_accounts E [] s) = Inr \<lparr>blockhash = show_hash E h, last_valid_block_height = height\<rparr>
     \<and> fst (latest_blockhash E s)
         = Inr \<lparr>context_slot = height,
                response_value = \<lparr>blockhash = show_hash E h, last_valid_block_height = height + 150\<rparr>\<rparr>
     \<and> height + 150 \<noteq> height"
  using assms by (simp add: blockhash_for_accounts_def latest_blockhash_def forward_def)

theorem blockhash_heights_differ_witness:
  "fst (latest_blockhash sample_http_env (sample_server\<lparr>delegations := (delegations sample_server)\<lparr>routes := sample_table\<rparr>\<rparr>))
     = Inr \<lparr>context_slot = 300, response_value = \<lparr>blockhash = ''h'', last_valid_block_height = 450\<rparr>\<rparr>"
proof -
  let ?s = "sample_server\<lparr>delegations := (delegations sample_server)\<lparr>routes := sample_table\<rparr>\<rparr>"
  let ?t = "?s\<lparr>delegations := (delegations ?s)\<lparr>routes := snd (base_chain sample_table)\<rparr>\<rparr>"
  have "get_latest_blockhash sample_http_env (metrics_client ''b'' ''chain'') = Inr (Hash [1], 300)"
    "show_hash sample_http_env (Hash [1]) = ''h''"
    by (simp_all add: sample_http_env_def)
  moreover have "closest sample_http_env ?s
      = (Inr (SerdePubkey pubkey_default, metrics_client ''b'' ''chain''), ?t)"
    by (simp add: closest_def closest_node_def table_def sample_table_def base_chain_def
        sample_upstream_def Let_def)
  moreover have "next_base_chain ?s = (sample_upstream ''b'', ?t)"
    by (simp add: next_base_chain_def table_def sample_table_def base_chain_def Let_def)
  moreover have "client (sample_upstream ''b'') = metrics_client ''b'' ''chain''"
    by (simp add: sample_upstream_def)
  ultimately show ?thesis using blockhash_heights_differ [of sample_http_env] by fastforce
qed

end
