(* ===== verification/Websocket.thy ===== *)
theory Websocket
  imports Http_Routing "HOL-Library.AList"
begin

text \<open>
  \<open>src/server/websocket.rs\<close>: the subscription methods offered to clients and the tasks that serve an
  accepted subscription.  \<open>ws_server\<close> holds what the handlers share: the delegations cache with the
  routing table and the metrics, the forwarded transactions, the id counter, the channel numbers given
  out, the unsubscriptions sent to connections and what was sent to client sinks.  Requests to the
  dispatcher are appended to the channel that the routing table also uses (\<open>lib.rs\<close> clones one sender).

  The confirmation a subscription waits for, the acceptance by the server library, and the events of a
  running task are arguments.  The tasks the server has spawned form one system, in which clients
  subscribe and tasks are first polled, take an event, end or are dropped in any order.
\<close>

section \<open>State\<close>

datatype sink_message = Data string json | Failure error_object

record ws_server =
  ws_delegations :: delegations_cache
  ws_transactions :: forwarded_transactions
  ws_ids :: u64
  ws_channels :: nat
  ws_unsubs :: "(channel \<times> unsubscription) list"
  ws_sinks :: "sink_message list"

record ws_env =
  wse_deleg :: deleg_env
  wse_display :: display
  wse_parse_signature :: "string \<Rightarrow> signature answer"
  wse_serializable :: "json \<Rightarrow> bool"

definition ws_metrics :: "ws_server \<Rightarrow> metrics" where
  "ws_metrics w = cache_metrics (ws_delegations w)"

definition map_metrics :: "(metrics \<Rightarrow> metrics) \<Rightarrow> ws_server \<Rightarrow> ws_server" where
  "map_metrics f w =
     w\<lparr>ws_delegations := (ws_delegations w)\<lparr>cache_metrics := f (cache_metrics (ws_delegations w))\<rparr>\<rparr>"

definition ws_table :: "ws_server \<Rightarrow> routing_table" where
  "ws_table w = routes (ws_delegations w)"

definition dispatch :: "subscription \<Rightarrow> ws_server \<Rightarrow> ws_server" where
  "dispatch s w =
     w\<lparr>ws_delegations := (ws_delegations w)\<lparr>routes := (ws_table w)\<lparr>dispatcher_tx :=
         dispatcher_tx (ws_table w) @ [s]\<rparr>\<rparr>\<rparr>"

definition send_unsub :: "subscription_handle \<Rightarrow> unsubscription \<Rightarrow> ws_server \<Rightarrow> ws_server" where
  "send_unsub h u w = w\<lparr>ws_unsubs := ws_unsubs w @ [(sh_unsub h, u)]\<rparr>"

definition ws_authority :: "ws_env \<Rightarrow> pubkey \<Rightarrow> ws_server \<Rightarrow> pubkey option \<times> ws_server" where
  "ws_authority E key w =
     (case get_delegation_authority (wse_deleg E) key (ws_delegations w) of
        (a, c) \<Rightarrow> (a, w\<lparr>ws_delegations := c\<rparr>))"

definition ws_base_chain :: "ws_server \<Rightarrow> upstream_record \<times> ws_server" where
  "ws_base_chain w =
     (case base_chain (ws_table w) of
        (b, rt) \<Rightarrow> (b, w\<lparr>ws_delegations := (ws_delegations w)\<lparr>routes := rt\<rparr>\<rparr>))"

definition new_ids :: "ws_server \<Rightarrow> subscriber_id \<times> request_id \<times> ws_server" where
  "new_ids w =
     (let (sid, n1) = generate SubscriberId (ws_ids w);
          (rid, n2) = generate RequestId n1
      in (sid, rid, w\<lparr>ws_ids := n2\<rparr>))"

definition new_channel :: "ws_server \<Rightarrow> channel \<times> ws_server" where
  "new_channel w = (ws_channels w, w\<lparr>ws_channels := Suc (ws_channels w)\<rparr>)"


section \<open>Account subscriptions\<close>

record account_handler =
  ah_pubkey :: pubkey
  ah_subscriber_id :: subscriber_id
  ah_tx :: channel
  ah_handles :: "(request_id \<times> subscription_handle) list"
  ah_params :: "json option"

definition account_subscription ::
  "ws_env \<Rightarrow> request_id \<Rightarrow> subscriber_id \<Rightarrow> pubkey \<Rightarrow> json option \<Rightarrow> channel \<Rightarrow> url \<Rightarrow> upstream_kind \<Rightarrow> subscription" where
  "account_subscription E rid sid key params tx dest kind =
     \<lparr>sub_request_id = rid, sub_subscriber_id = sid,
      sub_payload = account_subscription_json (show_pubkey (wse_display E)) rid key params,
      sub_tx = tx, sub_destination = dest, sub_upstream = kind\<rparr>"

text \<open>The part before the wait: the subscriptions sent, ER first, and the channel they report to.\<close>

definition account_subscribe_request ::
  "ws_env \<Rightarrow> pubkey \<Rightarrow> json option \<Rightarrow> ws_server
    \<Rightarrow> (router_error, subscriber_id \<times> channel) result \<times> ws_server" where
  "account_subscribe_request E key params w =
     (let (authority, w1) = ws_authority E key w;
          (b, w2) = ws_base_chain w1;
          ephem = (case authority of
                     None \<Rightarrow> Inr None
                   | Some v \<Rightarrow>
                       map_sum id (\<lambda>h. Some (handle_ws h))
                         (ok_or (ephemeral_handle v (ws_table w2)) (UnknownErNode v)))
      in case ephem of
           Inl e \<Rightarrow> (Inl e, w2)
         | Inr er \<Rightarrow>
             (let (tx, w3) = new_channel w2;
                  (sid, rid, w4) = new_ids w3;
                  chain_sub = account_subscription E rid sid key params tx (ws_url b) Chain;
                  w5 = (case er of
                          None \<Rightarrow> w4
                        | Some u \<Rightarrow> dispatch (clone_with_destination chain_sub u) w4)
              in (Inr (sid, tx), dispatch chain_sub w5)))"

text \<open>The confirmation: \<open>None\<close> is the timeout, \<open>Some None\<close> a closed channel.\<close>

definition account_subscribe ::
  "ws_env \<Rightarrow> serde_pubkey \<Rightarrow> json option \<Rightarrow> pubsub_message option option \<Rightarrow> (string, unit) result \<Rightarrow> ws_server
    \<Rightarrow> (string, account_handler) result \<times> ws_server" where
  "account_subscribe E pubkey params confirmation accept w =
     (let key = serde_pubkey_inner pubkey
      in case account_subscribe_request E key params w of
           (Inl e, w1) \<Rightarrow> (Inl (router_error_to_string (wse_display E) e), w1)
         | (Inr (sid, tx), w1) \<Rightarrow>
             (case confirmation of
                None \<Rightarrow> (Inl ''upstream failed to confirm the subscription'', w1)
              | Some (Some (Subscribed h)) \<Rightarrow>
                  (case accept of
                     Inl e \<Rightarrow> (Inl e, w1)
                   | Inr _ \<Rightarrow>
                       (Inr \<lparr>ah_pubkey = key, ah_subscriber_id = sid, ah_tx = tx,
                             ah_handles = [(sh_request_id h, h)], ah_params = params\<rparr>, w1))
              | _ \<Rightarrow> (Inl ''upstream failed to confirm the subscription for account'', w1)))"

definition account_unsub :: "request_id \<Rightarrow> subscriber_id \<Rightarrow> unsubscription" where
  "account_unsub rid sid =
     \<lparr>unsub_subscriber_id = sid, unsub_request_id = rid, unsub_method = ''accountUnsubscribe''\<rparr>"

definition notification_owner :: "json \<Rightarrow> string option" where
  "notification_owner v =
     (case json_path v [''value'', ''owner''] of None \<Rightarrow> None | Some o' \<Rightarrow> json_as_str o')"

definition handle_delegation_status_change ::
  "ws_env \<Rightarrow> json \<Rightarrow> request_id \<Rightarrow> upstream_kind \<Rightarrow> account_handler \<times> ws_server
    \<Rightarrow> account_handler \<times> ws_server" where
  "handle_delegation_status_change E notification rid upstream hw =
     (let (h, w) = hw
      in case notification_owner notification of
           None \<Rightarrow> (h, w)
         | Some owner_str \<Rightarrow>
             if owner_str \<noteq> DELEGATION_PROGRAM_STR then (h, w)
             else
               (case upstream of
                  Chain \<Rightarrow>
                    (case ws_authority E (ah_pubkey h) w of
                       (None, w1) \<Rightarrow> (h, w1)
                     | (Some i, w1) \<Rightarrow>
                         (case ephemeral_handle i (ws_table w1) of
                            None \<Rightarrow> (h, w1)
                          | Some r \<Rightarrow>
                              (let (sid, nrid, w2) = new_ids w1
                               in (h, dispatch (account_subscription E nrid sid (ah_pubkey h)
                                        (ah_params h) (ah_tx h) (handle_ws r) Ephem) w2))))
                | Ephem \<Rightarrow>
                    (case map_of (ah_handles h) rid of
                       None \<Rightarrow> (h, w)
                     | Some sh \<Rightarrow>
                         (h\<lparr>ah_handles := AList.delete rid (ah_handles h)\<rparr>,
                          send_unsub sh (account_unsub rid (ah_subscriber_id h)) w))))"

definition resubscribe ::
  "ws_env \<Rightarrow> request_id \<Rightarrow> account_handler \<times> ws_server \<Rightarrow> account_handler \<times> ws_server" where
  "resubscribe E rid hw =
     (let (h, w) = hw
      in case map_of (ah_handles h) rid of
           None \<Rightarrow> (h, w)
         | Some sh \<Rightarrow>
             (let h1 = h\<lparr>ah_handles := AList.delete rid (ah_handles h)\<rparr>;
                  (authority, w1) = ws_authority E (ah_pubkey h) w;
                  dest = (case authority of
                            Some v \<Rightarrow> (map_option handle_ws (ephemeral_handle v (ws_table w1)), w1)
                          | None \<Rightarrow> (case ws_base_chain w1 of (b, w2) \<Rightarrow> (Some (ws_url b), w2)))
              in case dest of
                   (None, w2) \<Rightarrow> (h1, w2)
                 | (Some u, w2) \<Rightarrow>
                     (h1, dispatch (account_subscription E (sh_request_id sh) (ah_subscriber_id h)
                            (ah_pubkey h) (ah_params h) (ah_tx h) u (sh_upstream sh)) w2)))"

fun close_handles :: "subscriber_id \<Rightarrow> (request_id \<times> subscription_handle) list \<Rightarrow> ws_server \<Rightarrow> ws_server" where
  "close_handles sid [] w = w"
| "close_handles sid ((rid, sh) # rest) w = close_handles sid rest (send_unsub sh (account_unsub rid sid) w)"

text \<open>The events of the \<open>select!\<close>: the client left, or a message came; the flag says whether the sink
  still takes the notification.\<close>

datatype handler_event = SinkClosed | Incoming pubsub_message bool

text \<open>One iteration; \<open>None\<close> ends the loop.\<close>

fun account_step ::
  "ws_env \<Rightarrow> subscription_guard \<Rightarrow> handler_event \<Rightarrow> account_handler \<times> ws_server
    \<Rightarrow> account_handler option \<times> ws_server" where
  "account_step E g SinkClosed (h, w) = (None, close_handles (ah_subscriber_id h) (ah_handles h) w)"
| "account_step E g (Incoming (Subscribed sh) ok) (h, w) =
     (Some (h\<lparr>ah_handles := AList.update (sh_request_id sh) sh (ah_handles h)\<rparr>), w)"
| "account_step E g (Incoming (Notification rid upstream payload) ok) (h, w) =
     (case handle_delegation_status_change E payload rid upstream (h, w) of
        (h1, w1) \<Rightarrow>
          if \<not> wse_serializable E payload then (Some h1, w1)
          else if \<not> ok then (None, w1)
          else (Some h1, map_metrics (guard_notified g)
                  (w1\<lparr>ws_sinks := ws_sinks w1 @ [Data ''accountNotification'' payload]\<rparr>)))"
| "account_step E g (Incoming (Disconnected rid) ok) (h, w) =
     (case resubscribe E rid (h, w) of (h1, w1) \<Rightarrow> (Some h1, w1))"

text \<open>The task runs until it ends or is dropped with its pending events.\<close>

fun account_loop ::
  "subscription_guard \<Rightarrow> (ws_env \<times> handler_event) list \<Rightarrow> account_handler \<times> ws_server \<Rightarrow> ws_server" where
  "account_loop g [] (h, w) = w"
| "account_loop g ((E, e) # es) (h, w) =
     (case account_step E g e (h, w) of
        (Some h', w') \<Rightarrow> account_loop g es (h', w')
      | (None, w') \<Rightarrow> w')"

section \<open>Signature subscriptions\<close>

record signature_handler =
  sg_subscriber_id :: subscriber_id
  sg_signature :: signature
  sg_tx :: channel
  sg_handle :: subscription_handle

definition sink_failure :: "ws_env \<Rightarrow> router_error \<Rightarrow> ws_server \<Rightarrow> ws_server" where
  "sink_failure E e w = w\<lparr>ws_sinks := ws_sinks w @ [Failure (error_object_from (wse_display E) e)]\<rparr>"

text \<open>\<open>Inr None\<close>: the method returns without an error to the library but starts no task.  \<open>sink_ok\<close> is
  the result of sending the failure to the sink.\<close>

definition signature_subscribe ::
  "ws_env \<Rightarrow> (string, unit) result \<Rightarrow> string \<Rightarrow> json option \<Rightarrow> pubsub_message option option
    \<Rightarrow> (string, unit) result \<Rightarrow> ws_server \<Rightarrow> (string, signature_handler option) result \<times> ws_server" where
  "signature_subscribe E accept sig_str params confirmation sink_ok w =
     (case accept of
        Inl e \<Rightarrow> (Inl e, w)
      | Inr _ \<Rightarrow>
          (case wse_parse_signature E sig_str of
             Inl e \<Rightarrow> (Inl (router_error_to_string (wse_display E) (decode_error e)),
                       map_metrics (metrics_error ''pubsub'') w)
           | Inr sig \<Rightarrow>
               (case get_transaction sig (ws_transactions w) of
                  None \<Rightarrow>
                    (let w1 = map_metrics (metrics_error ''pubsub'') w
                     in case sink_ok of
                          Inl e \<Rightarrow> (Inl e, w1)
                        | Inr _ \<Rightarrow> (Inr None, sink_failure E (UnknownTransaction sig) w1))
                | Some r \<Rightarrow>
                    (let (tx, w1) = new_channel w;
                         (sid, rid, w2) = new_ids w1;
                         sub = \<lparr>sub_request_id = rid, sub_subscriber_id = sid,
                                sub_payload = signature_subscription_json
                                  (show_signature (wse_display E)) rid sig params,
                                sub_tx = tx, sub_destination = handle_ws r, sub_upstream = Chain\<rparr>;
                         w3 = dispatch sub w2
                     in case confirmation of
                          Some (Some (Subscribed h)) \<Rightarrow>
                            (Inr (Some \<lparr>sg_subscriber_id = sid, sg_signature = sig, sg_tx = tx,
                                        sg_handle = h\<rparr>), w3)
                        | _ \<Rightarrow>
                            (let w4 = map_metrics (metrics_error ''pubsub'') w3
                             in case sink_ok of
                                  Inl e \<Rightarrow> (Inl e, w4)
                                | Inr _ \<Rightarrow>
                                    (Inr None,
                                     sink_failure E (SubscriptionTimetout ''signatureSubscribe'') w4))))))"

datatype signature_event = SigSinkClosed | SigIncoming pubsub_message bool | SigTimeout

definition signature_select ::
  "ws_env \<Rightarrow> subscription_guard \<Rightarrow> signature_event \<Rightarrow> signature_handler \<Rightarrow> ws_server \<Rightarrow> ws_server" where
  "signature_select E g e h w =
     (case e of
        SigSinkClosed \<Rightarrow>
          send_unsub (sg_handle h)
            \<lparr>unsub_subscriber_id = sg_subscriber_id h, unsub_request_id = sh_request_id (sg_handle h),
             unsub_method = ''signatureUnsubscribe''\<rparr> w
      | SigIncoming (Notification rid upstream payload) ok \<Rightarrow>
          if \<not> wse_serializable E payload \<or> \<not> ok then w
          else map_metrics (guard_notified g)
                 (w\<lparr>ws_sinks := ws_sinks w @ [Data ''signatureNotification'' payload]\<rparr>)
      | _ \<Rightarrow> w)"


section \<open>The tasks of the server\<close>

text \<open>A spawned task does nothing until it is first polled; then it takes its guard, which is a local
  variable of \<open>run\<close> and lives as long as the task.\<close>

datatype ws_task =
    AccountSpawned account_handler
  | AccountRunning subscription_guard account_handler
  | SignatureSpawned signature_handler
  | SignatureRunning subscription_guard signature_handler

record ws_tasks =
  wt_server :: ws_server
  wt_tasks :: "ws_task list"

text \<open>Dropping a task drops its local variables, among them its guard if it took one.\<close>

fun drop_task :: "ws_task \<Rightarrow> ws_server \<Rightarrow> ws_server" where
  "drop_task (AccountRunning g h) w = map_metrics (guard_drop g) w"
| "drop_task (SignatureRunning g h) w = map_metrics (guard_drop g) w"
| "drop_task _ w = w"

definition remove_task :: "nat \<Rightarrow> ws_server \<Rightarrow> ws_tasks \<Rightarrow> ws_tasks" where
  "remove_task i w S =
     S\<lparr>wt_server := drop_task (wt_tasks S ! i) w,
       wt_tasks := take i (wt_tasks S) @ drop (Suc i) (wt_tasks S)\<rparr>"

definition open_guard :: "string \<Rightarrow> ws_server \<Rightarrow> subscription_guard \<times> ws_server" where
  "open_guard kind w =
     (case metrics_subscription kind (ws_metrics w) of (g, M) \<Rightarrow> (g, map_metrics (\<lambda>_. M) w))"

text \<open>What can happen next: a client calls a subscription method, a task is polled for the first time,
  a task takes a branch of its \<open>select!\<close>, or the runtime drops a task.\<close>

datatype ws_event =
    AccountSubscribe ws_env serde_pubkey "json option" "pubsub_message option option" "(string, unit) result"
  | SignatureSubscribe ws_env "(string, unit) result" string "json option" "pubsub_message option option"
      "(string, unit) result"
  | FirstPoll nat
  | AccountEvent nat ws_env handler_event
  | SignatureEvent nat ws_env signature_event
  | DropTask nat

fun first_poll :: "ws_task \<Rightarrow> ws_server \<Rightarrow> ws_task \<times> ws_server" where
  "first_poll (AccountSpawned h) w = (case open_guard ''account'' w of (g, w') \<Rightarrow> (AccountRunning g h, w'))"
| "first_poll (SignatureSpawned h) w =
     (case open_guard ''signature'' w of (g, w') \<Rightarrow> (SignatureRunning g h, w'))"
| "first_poll t w = (t, w)"

fun ws_event_step :: "ws_event \<Rightarrow> ws_tasks \<Rightarrow> ws_tasks" where
  "ws_event_step (AccountSubscribe E key params confirmation accept) S =
     (case account_subscribe E key params confirmation accept (wt_server S) of
        (Inl e, w) \<Rightarrow> S\<lparr>wt_server := w\<rparr>
      | (Inr h, w) \<Rightarrow> S\<lparr>wt_server := w, wt_tasks := wt_tasks S @ [AccountSpawned h]\<rparr>)"
| "ws_event_step (SignatureSubscribe E accept sig params confirmation sink_ok) S =
     (case signature_subscribe E accept sig params confirmation sink_ok (wt_server S) of
        (Inr (Some h), w) \<Rightarrow> S\<lparr>wt_server := w, wt_tasks := wt_tasks S @ [SignatureSpawned h]\<rparr>
      | (_, w) \<Rightarrow> S\<lparr>wt_server := w\<rparr>)"
| "ws_event_step (FirstPoll i) S =
     (if i < length (wt_tasks S)
      then (case first_poll (wt_tasks S ! i) (wt_server S) of
              (t, w) \<Rightarrow> S\<lparr>wt_server := w, wt_tasks := (wt_tasks S)[i := t]\<rparr>)
      else S)"
| "ws_event_step (AccountEvent i E e) S =
     (if i < length (wt_tasks S)
      then (case wt_tasks S ! i of
              AccountRunning g h \<Rightarrow>
                (case account_step E g e (h, wt_server S) of
                   (Some h', w) \<Rightarrow>
                     S\<lparr>wt_server := w, wt_tasks := (wt_tasks S)[i := AccountRunning g h']\<rparr>
                 | (None, w) \<Rightarrow> remove_task i w S)
            | _ \<Rightarrow> S)
      else S)"
| "ws_event_step (SignatureEvent i E e) S =
     (if i < length (wt_tasks S)
      then (case wt_tasks S ! i of
              SignatureRunning g h \<Rightarrow> remove_task i (signature_select E g e h (wt_server S)) S
            | _ \<Rightarrow> S)
      else S)"
| "ws_event_step (DropTask i) S =
     (if i < length (wt_tasks S) then remove_task i (wt_server S) S else S)"

definition ws_run :: "ws_event list \<Rightarrow> ws_tasks \<Rightarrow> ws_tasks" where
  "ws_run es S = fold ws_event_step es S"


section \<open>The gauge counts the running handlers\<close>

abbreviation gauge :: "delegations_cache \<Rightarrow> string \<rightharpoonup> int" where
  "gauge c \<equiv> m_subscriptions (cache_metrics c)"

lemma gauge_error [simp]: "m_subscriptions (metrics_error src M) = m_subscriptions M"
  by (simp add: metrics_error_def)

lemma gauge_fetch_attempts [simp]:
  "m_subscriptions (fst (snd (fetch_attempts answer as M t))) = m_subscriptions M"
  by (induction answer as M t rule: fetch_attempts.induct)
     (auto simp: Let_def split: sum.splits option.splits)

lemma gauge_writers [simp]:
  "gauge (snd (remove_pending_fill pda f c)) = gauge c"
  "gauge (insert_new E pda e c) = gauge c"
  "gauge (snd (subscribe E pda c)) = gauge c"
  "gauge (snd (claim_fill pda f m c)) = gauge c"
  "gauge (release_fill pda f c) = gauge c"
  "gauge (snd (merge_fetched pda e g c)) = gauge c"
  "gauge (snd (new_fill c)) = gauge c"
  "gauge (send_fill f r c) = gauge c"
  "gauge (drop_fill f c) = gauge c"
  "gauge (snd (snd (fetch E pda m c))) = gauge c"
  by (simp_all add: db_op_defs fetch_def split_beta Let_def del: upt_Suc fetch_attempts.simps
      split: option.splits prod.splits)

lemma gauge_get_record_miss:
  assumes "db c pda = None"
  shows "gauge (snd (get_record_loop E pda c)) = gauge c"
proof (cases "sync_subscribe E pda")
  case None
  obtain f c1 where f: "new_fill c = (f, c1)" by fastforce
  obtain c2 where sub: "subscribe E pda (insert_new E pda (placeholder f) c1) = (None, c2)"
    using None by (simp add: subscribe_def)
  have "fst (remove_pending_fill pda f c2)"
    by (rule remove_fill_placeholder [OF db_after_subscribe [OF sub [symmetric]]])
  moreover have "gauge c2 = gauge c"
    using gauge_writers(3) [of E pda "insert_new E pda (placeholder f) c1"] gauge_writers(7) [of c]
    by (simp add: sub f)
  ultimately show ?thesis
    using assms by (subst get_record_loop.simps) (simp add: f sub split_beta)
qed (simp add: get_record_loop_miss [OF assms] Let_def split_beta claimed_state_def)

lemma gauge_get_record_loop: "gauge (snd (get_record_loop E pda c)) = gauge c"
proof (cases "db c pda")
  case None
  then show ?thesis by (rule gauge_get_record_miss)
next
  case (Some e)
  then consider "slot e \<noteq> 0" | "slot e = 0" "pending e = None"
    | f where "slot e = 0" "pending e = Some f" by fastforce
  then show ?thesis
  proof cases
    case (3 f)
    have "db (snd (remove_pending_fill pda f c)) pda = None"
      using Some 3 by (simp add: remove_pending_fill_def)
    from gauge_get_record_miss [OF this] Some 3 show ?thesis
      by (subst get_record_loop.simps) (auto split: option.splits)
  qed (use Some in \<open>simp_all add: get_record_loop_hit get_record_loop_unowned\<close>)
qed

abbreviation ws_gauge :: "ws_server \<Rightarrow> string \<rightharpoonup> int" where
  "ws_gauge w \<equiv> m_subscriptions (ws_metrics w)"

lemma ws_gauge_ops [simp]:
  "ws_gauge (snd (ws_authority E key w)) = ws_gauge w"
  "ws_gauge (dispatch s w) = ws_gauge w"
  "ws_gauge (send_unsub h u w) = ws_gauge w"
  "ws_gauge (snd (ws_base_chain w)) = ws_gauge w"
  "ws_gauge (snd (snd (new_ids w))) = ws_gauge w"
  "ws_gauge (snd (new_channel w)) = ws_gauge w"
  by (simp_all add: ws_authority_def get_delegation_authority_def get_record_def split_beta ws_metrics_def
      gauge_get_record_loop dispatch_def send_unsub_def ws_base_chain_def new_ids_def new_channel_def Let_def)

lemma ws_gauge_status_change [simp]:
  "ws_gauge (snd (handle_delegation_status_change E n rid up (h, w))) = ws_gauge w"
  using ws_gauge_ops(1) [of E "ah_pubkey h" w]
  by (auto simp: handle_delegation_status_change_def Let_def split_beta
      split: option.splits upstream_kind.splits prod.splits)

lemma ws_gauge_resubscribe [simp]: "ws_gauge (snd (resubscribe E rid (h, w))) = ws_gauge w"
proof (cases "ws_authority E (ah_pubkey h) w")
  case (Pair a w1)
  then have "ws_gauge w1 = ws_gauge w" using ws_gauge_ops(1) [of E "ah_pubkey h" w] by simp
  moreover have "ws_base_chain w1 = (b, w2) \<Longrightarrow> ws_gauge w2 = ws_gauge w1" for b w2
    using ws_gauge_ops(4) [of w1] by simp
  ultimately show ?thesis
    using Pair by (auto simp: resubscribe_def Let_def split: option.splits prod.splits)
qed

lemma ws_gauge_close [simp]: "ws_gauge (close_handles sid hs w) = ws_gauge w"
  by (induction sid hs w rule: close_handles.induct) simp_all

lemma ws_gauge_map [simp]:
  "ws_metrics (map_metrics f w) = f (ws_metrics w)"
  by (simp add: map_metrics_def ws_metrics_def)

lemma ws_metrics_sinks [simp]: "ws_metrics (w\<lparr>ws_sinks := s\<rparr>) = ws_metrics w"
  by (simp add: ws_metrics_def)

lemma gauge_notified [simp]: "m_subscriptions (guard_notified g M) = m_subscriptions M"
  by (simp add: guard_notified_def)

lemma ws_gauge_step: "ws_gauge (snd (account_step E g e (h, w))) = ws_gauge w"
proof (cases e)
  case (Incoming m ok)
  show ?thesis
  proof (cases m)
    case (Notification rid up payload)
    with Incoming ws_gauge_status_change [of E payload rid up h w] show ?thesis
      by (simp add: split_beta)
  next
    case (Disconnected rid)
    with Incoming ws_gauge_resubscribe [of E rid h w] show ?thesis by (simp add: split_beta)
  qed (simp add: Incoming)
qed simp

lemma ws_gauge_select: "ws_gauge (signature_select E g e h w) = ws_gauge w"
  by (auto simp: signature_select_def split: signature_event.splits pubsub_message.splits)

lemma ws_gauge_account_request: "ws_gauge (snd (account_subscribe_request E key params w)) = ws_gauge w"
proof -
  obtain a w1 where a: "ws_authority E key w = (a, w1)" by fastforce
  obtain b w2 where b: "ws_base_chain w1 = (b, w2)" by fastforce
  have "ws_gauge w2 = ws_gauge w"
    using ws_gauge_ops(1) [of E key w] ws_gauge_ops(4) [of w1] a b by simp
  then show ?thesis
    using ws_gauge_ops(5) [of "snd (new_channel w2)"] ws_gauge_ops(6) [of w2]
    by (auto simp: account_subscribe_request_def a b Let_def split_beta split: option.splits sum.splits)
qed

lemma ws_gauge_account_subscribe: "ws_gauge (snd (account_subscribe E key params conf acc w)) = ws_gauge w"
  using ws_gauge_account_request [of E "serde_pubkey_inner key" params w]
  by (auto simp: account_subscribe_def Let_def split: sum.splits option.splits pubsub_message.splits prod.splits)

lemma ws_gauge_signature_subscribe:
  "ws_gauge (snd (signature_subscribe E acc sig params conf ok w)) = ws_gauge w"
  using ws_gauge_ops(5) [of "snd (new_channel w)"] ws_gauge_ops(6) [of w]
  by (auto simp: signature_subscribe_def sink_failure_def Let_def split_beta
      split: sum.splits option.splits pubsub_message.splits)

text \<open>The kind of subscription a running task serves.\<close>

fun serves :: "string \<Rightarrow> ws_task \<Rightarrow> bool" where
  "serves kind (AccountRunning g h) \<longleftrightarrow> kind = ''account''"
| "serves kind (SignatureRunning g h) \<longleftrightarrow> kind = ''signature''"
| "serves kind _ \<longleftrightarrow> False"

definition running :: "string \<Rightarrow> ws_task list \<Rightarrow> int" where
  "running kind ts = (\<Sum>t\<leftarrow>ts. of_bool (serves kind t))"

text \<open>Guards carry the kind of their task, and the gauge exceeds its initial value by the tasks that run.\<close>

fun guard_ok :: "ws_task \<Rightarrow> bool" where
  "guard_ok (AccountRunning g h) \<longleftrightarrow> guard_kind g = ''account''"
| "guard_ok (SignatureRunning g h) \<longleftrightarrow> guard_kind g = ''signature''"
| "guard_ok _ \<longleftrightarrow> True"

definition gauge_inv :: "(string \<rightharpoonup> int) \<Rightarrow> ws_tasks \<Rightarrow> bool" where
  "gauge_inv G S \<longleftrightarrow> list_all guard_ok (wt_tasks S)
     \<and> (\<forall>kind. value_of 0 (ws_gauge (wt_server S)) kind = value_of 0 G kind + running kind (wt_tasks S))"

lemma running_simps [simp]:
  "running kind [] = 0"
  "running kind (ts @ [t]) = running kind ts + of_bool (serves kind t)"
  by (simp_all add: running_def)

lemma running_remove:
  assumes "i < length ts"
  shows "running kind (take i ts @ drop (Suc i) ts) = running kind ts - of_bool (serves kind (ts ! i))"
  by (subst (2) id_take_nth_drop [OF assms]) (simp add: running_def)

lemma running_update:
  "i < length ts \<Longrightarrow>
     running kind (ts[i := t]) = running kind ts - of_bool (serves kind (ts ! i)) + of_bool (serves kind t)"
  using running_remove [of i ts kind] by (simp add: running_def upd_conv_take_nth_drop)

lemma gauge_drop_task:
  "guard_ok t \<Longrightarrow>
     value_of 0 (ws_gauge (drop_task t w)) kind = value_of 0 (ws_gauge w) kind - of_bool (serves kind t)"
  by (cases t) (auto simp: guard_drop_def)

lemma gauge_inv_remove:
  assumes "gauge_inv G S" and "i < length (wt_tasks S)" and "ws_gauge w = ws_gauge (wt_server S)"
  shows "gauge_inv G (remove_task i w S)"
proof -
  have "guard_ok (wt_tasks S ! i)" using assms(1,2) by (simp add: gauge_inv_def list_all_length)
  with assms show ?thesis
    by (simp add: gauge_inv_def remove_task_def running_remove gauge_drop_task)
       (metis list_all_append append_take_drop_id list.pred_inject(2) Cons_nth_drop_Suc)
qed

lemma gauge_inv_server:
  "gauge_inv G S \<Longrightarrow> ws_gauge w = ws_gauge (wt_server S) \<Longrightarrow> gauge_inv G (S\<lparr>wt_server := w\<rparr>)"
  by (simp add: gauge_inv_def)

lemma gauge_inv_spawn:
  assumes "gauge_inv G S" and "ws_gauge w = ws_gauge (wt_server S)" and "\<And>kind. \<not> serves kind t"
    and "guard_ok t"
  shows "gauge_inv G (S\<lparr>wt_server := w, wt_tasks := wt_tasks S @ [t]\<rparr>)"
  using assms by (simp add: gauge_inv_def)

lemma gauge_inv_update:
  assumes "gauge_inv G S" and "i < length (wt_tasks S)" and "guard_ok t"
    and "\<And>kind. value_of 0 (ws_gauge w) kind
           = value_of 0 (ws_gauge (wt_server S)) kind - of_bool (serves kind (wt_tasks S ! i))
             + of_bool (serves kind t)"
  shows "gauge_inv G (S\<lparr>wt_server := w, wt_tasks := (wt_tasks S)[i := t]\<rparr>)"
  using assms
  by (auto simp: gauge_inv_def running_update list_all_iff dest: set_update_subset_insert [THEN subsetD])

lemma gauge_first_poll:
  assumes "first_poll t w = (t', w')" and "guard_ok t"
  shows "guard_ok t' \<and> value_of 0 (ws_gauge w') kind
           = value_of 0 (ws_gauge w) kind - of_bool (serves kind t) + of_bool (serves kind t')"
  using assms by (cases t) (auto simp: open_guard_def metrics_subscription_def)

lemma gauge_inv_step: "gauge_inv G S \<Longrightarrow> gauge_inv G (ws_event_step e S)"
proof (induction e S rule: ws_event_step.induct)
  case (1 E key params conf acc S)
  with ws_gauge_account_subscribe [of E key params conf acc "wt_server S"] show ?case
    by (auto intro: gauge_inv_server gauge_inv_spawn split: prod.splits sum.splits)
next
  case (2 E acc sig params conf ok S)
  with ws_gauge_signature_subscribe [of E acc sig params conf ok "wt_server S"] show ?case
    by (auto intro: gauge_inv_server gauge_inv_spawn split: prod.splits sum.splits option.splits)
next
  case (3 i S)
  obtain t w where poll: "first_poll (wt_tasks S ! i) (wt_server S) = (t, w)" by fastforce
  show ?case
  proof (cases "i < length (wt_tasks S)")
    case True
    with 3 have "guard_ok (wt_tasks S ! i)" by (simp add: gauge_inv_def list_all_length)
    from gauge_first_poll [OF poll this] gauge_inv_update [OF 3 True] True poll show ?thesis by simp
  qed (use 3 in simp)
next
  case (4 i E e S)
  show ?case
  proof (cases "i < length (wt_tasks S) \<and> (\<exists>g h. wt_tasks S ! i = AccountRunning g h)")
    case True
    then obtain g h where i: "i < length (wt_tasks S)" and t: "wt_tasks S ! i = AccountRunning g h" by blast
    with 4 have "guard_ok (AccountRunning g h)" by (metis gauge_inv_def list_all_length)
    then show ?thesis
      using i t ws_gauge_step [of E g e h "wt_server S"]
      by (auto intro!: gauge_inv_update [OF 4 i] gauge_inv_remove [OF 4 i] split: prod.splits option.splits)
  qed (use 4 in \<open>auto split: ws_task.splits\<close>)
next
  case (5 i E e S)
  then show ?case
    by (auto intro: gauge_inv_remove ws_gauge_select split: ws_task.splits)
next
  case (6 i S)
  then show ?case by (auto intro: gauge_inv_remove)
qed

text \<open>C25: However clients subscribe, tasks run, end or are dropped, the gauge of live subscriptions of each
  kind has grown by exactly the number of handlers of that kind that are running: a handler counts from
  its first poll, under its own kind, until it ends on whichever way.\<close>

theorem gauge_counts_running_handlers:
  "value_of 0 (m_subscriptions (ws_metrics (wt_server (ws_run es \<lparr>wt_server = w, wt_tasks = []\<rparr>)))) kind
     = value_of 0 (m_subscriptions (ws_metrics w)) kind
       + running kind (wt_tasks (ws_run es \<lparr>wt_server = w, wt_tasks = []\<rparr>))"
proof -
  have "gauge_inv (ws_gauge w) (ws_run es \<lparr>wt_server = w, wt_tasks = []\<rparr>)"
    unfolding ws_run_def by (rule fold_invariant) (simp add: gauge_inv_def, rule gauge_inv_step)
  then show ?thesis by (simp add: gauge_inv_def)
qed


section \<open>Two upstreams, one handle\<close>

lemma ws_table_frames [simp]:
  "ws_table (snd (new_channel w)) = ws_table w"
  "ws_table (snd (snd (new_ids w))) = ws_table w"
  by (simp_all add: new_channel_def new_ids_def Let_def split_beta ws_table_def)

lemma dispatcher_dispatch [simp]:
  "dispatcher_tx (ws_table (dispatch s w)) = dispatcher_tx (ws_table w) @ [s]"
  by (simp add: dispatch_def ws_table_def)

lemma ws_base_chain_frame [simp]:
  "dispatcher_tx (ws_table (snd (ws_base_chain w))) = dispatcher_tx (ws_table w)"
  "ephemeral_handle v (ws_table (snd (ws_base_chain w))) = ephemeral_handle v (ws_table w)"
  by (simp_all add: ws_base_chain_def base_chain_def split_beta ws_table_def Let_def ephemeral_handle_def)

definition request_sub ::
  "ws_env \<Rightarrow> pubkey \<Rightarrow> json option \<Rightarrow> ws_server \<Rightarrow> subscription" where
  "request_sub E key params w =
     account_subscription E (RequestId (ws_ids w + 1)) (SubscriberId (ws_ids w)) key params
       (ws_channels w) (ws_url (fst (ws_base_chain w))) Chain"

lemma account_subscribe_request_delegated:
  assumes "ws_authority E key w = (Some v, w1)" and "ephemeral_handle v (ws_table w1) = Some r"
  shows "\<exists>w'. account_subscribe_request E key params w = (Inr (SubscriberId (ws_ids w1), ws_channels w1), w')
     \<and> dispatcher_tx (ws_table w') = dispatcher_tx (ws_table w1)
         @ [clone_with_destination (request_sub E key params w1) (handle_ws r), request_sub E key params w1]
     \<and> ws_unsubs w' = ws_unsubs w1"
proof -
  obtain b w2 where b: "ws_base_chain w1 = (b, w2)" by fastforce
  have w2: "dispatcher_tx (ws_table w2) = dispatcher_tx (ws_table w1)"
    "ephemeral_handle v (ws_table w2) = Some r"
    using ws_base_chain_frame(1) [of w1] ws_base_chain_frame(2) [of v w1] assms(2) b by simp_all
  have same: "ws_ids w2 = ws_ids w1" "ws_channels w2 = ws_channels w1" "ws_unsubs w2 = ws_unsubs w1"
    using b by (auto simp: ws_base_chain_def split: prod.splits)
  show ?thesis
    using w2
    by (simp add: account_subscribe_request_def assms(1) b new_channel_def new_ids_def generate_def Let_def
        request_sub_def same)
       (simp add: dispatch_def ws_table_def same)
qed

text \<open>C38: Subscribing to a delegated account asks two upstreams, but under one request id, one subscriber id
  and the tag of the base chain for both.  When both confirm, the handler keeps one handle for the two,
  and when the client leaves only the upstream that confirmed last is unsubscribed.\<close>

theorem second_confirmation_hides_first:
  assumes "ws_authority E key w = (Some v, w1)" and "ephemeral_handle v (ws_table w1) = Some r"
    and "sh_request_id h1 = RequestId (ws_ids w1 + 1)" and "sh_request_id h2 = RequestId (ws_ids w1 + 1)"
  shows "\<exists>h w2 s. account_subscribe E (SerdePubkey key) params (Some (Some (Subscribed h1))) (Inr ()) w = (Inr h, w2)
     \<and> dispatcher_tx (ws_table w2) = dispatcher_tx (ws_table w1) @ [clone_with_destination s (handle_ws r), s]
     \<and> sub_upstream s = Chain
     \<and> ws_unsubs (account_loop g [(E, Incoming (Subscribed h2) True), (E, SinkClosed)] (h, w2))
         = ws_unsubs w1 @ [(sh_unsub h2, account_unsub (sub_request_id s) (sub_subscriber_id s))]"
proof -
  obtain w2 where req: "account_subscribe_request E key params w
      = (Inr (SubscriberId (ws_ids w1), ws_channels w1), w2)"
    and sent: "dispatcher_tx (ws_table w2) = dispatcher_tx (ws_table w1)
         @ [clone_with_destination (request_sub E key params w1) (handle_ws r), request_sub E key params w1]"
    and unsubs: "ws_unsubs w2 = ws_unsubs w1"
    using account_subscribe_request_delegated [OF assms(1,2)] by blast
  show ?thesis
    by (rule exI [of _ "\<lparr>ah_pubkey = key, ah_subscriber_id = SubscriberId (ws_ids w1), ah_tx = ws_channels w1,
          ah_handles = [(RequestId (ws_ids w1 + 1), h1)], ah_params = params\<rparr>"], rule exI [of _ w2], rule exI [of _ "request_sub E key params w1"])
       (simp add: account_subscribe_def req sent unsubs assms(3,4) send_unsub_def
         request_sub_def account_subscription_def)
qed


definition sample_ws_env :: ws_env where
  "sample_ws_env =
     \<lparr>wse_deleg = sample_deleg_env, wse_display = disp sample_http_env,
      wse_parse_signature = parse_signature sample_http_env, wse_serializable = (\<lambda>_. True)\<rparr>"

definition sample_ws :: ws_server where
  "sample_ws =
     \<lparr>ws_delegations = delegations sample_server, ws_transactions = transactions sample_server,
      ws_ids = 5, ws_channels = 0, ws_unsubs = [], ws_sinks = []\<rparr>"

lemma sample_ws_authority: "ws_authority sample_ws_env (Pubkey [11]) sample_ws = (Some (Pubkey [1]), sample_ws)"
proof -
  have "db (delegations sample_server) (Pubkey [11]) = Some (sample_delegated 1)" "slot (sample_delegated 1) \<noteq> 0"
    by (simp_all add: sample_server_def sample_delegated_def fetched_entry_def)
  then show ?thesis
    by (simp add: ws_authority_def sample_ws_env_def sample_ws_def get_delegation_authority_def get_record_def
        sample_pda get_record_loop_hit)
       (simp add: sample_delegated_def fetched_entry_def record_authority_def)
qed

lemma sample_ws_route:
  "ephemeral_handle (Pubkey [1]) (ws_table sample_ws)
     = Some \<lparr>handle_rpc = metrics_client ''er1'' ''er'', handle_ws = ''er1''\<rparr>"
  using sample_table_er1(1) by (simp add: ws_table_def sample_ws_def table_def)

theorem second_confirmation_hides_first_witness:
  "\<exists>h w2 rid sid. ws_unsubs (account_loop \<lparr>guard_kind = ''account''\<rparr>
      [(sample_ws_env, Incoming (Subscribed \<lparr>sh_request_id = RequestId 6, sh_unsub = 2, sh_upstream = Chain\<rparr>) True),
       (sample_ws_env, SinkClosed)] (h, w2)) = [(2, account_unsub rid sid)]"
proof -
  have ids: "ws_ids sample_ws + 1 = 6" "ws_unsubs sample_ws = []" by (simp_all add: sample_ws_def)
  show ?thesis
    using second_confirmation_hides_first [OF sample_ws_authority sample_ws_route, of
        "\<lparr>sh_request_id = RequestId 6, sh_unsub = 1, sh_upstream = Chain\<rparr>"
        "\<lparr>sh_request_id = RequestId 6, sh_unsub = 2, sh_upstream = Chain\<rparr>" None "\<lparr>guard_kind = ''account''\<rparr>"]
    unfolding ids by fastforce
qed


section \<open>Resubscribing after a disconnection\<close>

lemma ws_authority_frame:
  assumes "ws_authority E key w = (a, w1)"
  shows "dispatcher_tx (ws_table w1) = dispatcher_tx (ws_table w)"
    "ephemeral_handle v (ws_table w1) = ephemeral_handle v (ws_table w)"
    "ws_transactions w1 = ws_transactions w"
proof -
  have "routes_advance (ws_table w) (ws_table w1)"
    using routes_get_record_loop [of "ws_delegations w" "wse_deleg E" "pda_for (wse_deleg E) key"] assms
    by (auto simp: ws_authority_def get_delegation_authority_def get_record_def ws_table_def split: prod.splits)
  then have "fixed_routes (ws_table w1) = fixed_routes (ws_table w)" by (rule routes_advance_fixed)
  then show "ephemeral_handle v (ws_table w1) = ephemeral_handle v (ws_table w)"
    by (rule fixed_ephemeral)
  show "dispatcher_tx (ws_table w1) = dispatcher_tx (ws_table w)"
    using \<open>routes_advance (ws_table w) (ws_table w1)\<close>
    by (auto simp: routes_advance_def base_chain_def Let_def)
  show "ws_transactions w1 = ws_transactions w"
    using assms by (auto simp: ws_authority_def split: prod.splits)
qed

text \<open>C26: When a connection reports a subscription of a handler as lost, the handler asks again exactly once,
  under the same request id and its own subscriber id, at the node the account is delegated to now or
  at the base chain; if that node is unknown the subscription is given up.  Reports about requests the
  handler does not hold change nothing.\<close>

theorem disconnected_handler_resubscribes:
  "case map_of (ah_handles h) rid of
     None \<Rightarrow> resubscribe E rid (h, w) = (h, w)
   | Some sh \<Rightarrow>
       (case ws_authority E (ah_pubkey h) w of
          (a, w1) \<Rightarrow>
            (case (case a of
                     Some v \<Rightarrow> map_option handle_ws (ephemeral_handle v (ws_table w))
                   | None \<Rightarrow> Some (ws_url (fst (ws_base_chain w1)))) of
               None \<Rightarrow> dispatcher_tx (ws_table (snd (resubscribe E rid (h, w)))) = dispatcher_tx (ws_table w)
             | Some u \<Rightarrow>
                 dispatcher_tx (ws_table (snd (resubscribe E rid (h, w)))) = dispatcher_tx (ws_table w)
                   @ [account_subscription E (sh_request_id sh) (ah_subscriber_id h) (ah_pubkey h)
                        (ah_params h) (ah_tx h) u (sh_upstream sh)]))
       \<and> map_of (ah_handles (fst (resubscribe E rid (h, w)))) rid = None"
proof (cases "map_of (ah_handles h) rid")
  case (Some sh)
  obtain a w1 where a: "ws_authority E (ah_pubkey h) w = (a, w1)" by fastforce
  obtain b w2 where b: "ws_base_chain w1 = (b, w2)" by fastforce
  have tx: "dispatcher_tx (ws_table w2) = dispatcher_tx (ws_table w)"
    using ws_base_chain_frame(1) [of w1] b ws_authority_frame(1) [OF a] by simp
  note frame = ws_authority_frame(1,2) [OF a]
  show ?thesis
    by (cases a) (auto simp: resubscribe_def Some a b tx frame Let_def delete_conv' split: option.splits)
qed (simp add: resubscribe_def)

end
