(* ===== verification/Connection.thy ===== *)
theory Connection
  imports Pubsub_Types Metrics "HOL-Library.AList"
begin

text \<open>
  \<open>src/pubsub/connection.rs\<close>: one websocket connection to an upstream.  It keeps the subscriptions that
  were sent but not confirmed, the listeners of every confirmed subscription, and the translation from
  the router's request ids to the upstream's subscription ids.  Hash maps that the code iterates over
  are association lists in iteration order.

  Each branch of the \<open>select!\<close> in \<open>run\<close> is an event.  What the peers do is the argument \<open>conn_env\<close>: which
  channels still have a receiver, whether a send on the socket succeeds and which reconnection attempts
  succeed.  The world records the messages delivered to subscribers, the texts written to the socket,
  the shared id counter and the metrics.
\<close>

section \<open>State\<close>

record subscriber_handle =
  shn_request_id :: request_id
  shn_upstream :: upstream_kind
  shn_tx :: channel

type_synonym listeners = "(subscriber_id \<times> subscriber_handle) list"

type_synonym subscriptions_db = "(subscription_id \<times> listeners) list"

record connection =
  conn_subscriptions :: subscriptions_db
  conn_inflights :: "request_id \<rightharpoonup> subscription"
  conn_request_to_subs :: "request_id \<rightharpoonup> subscription_id"
  conn_unsubscriptions_tx :: channel
  conn_url :: url
  conn_target :: string

record conn_world =
  conn :: connection
  id_counter :: u64
  delivered :: "(channel \<times> pubsub_message) list"
  wire :: "json list"
  conn_metrics :: metrics

record conn_env =
  channel_open :: "channel \<Rightarrow> bool"
  socket_ok :: "json \<Rightarrow> bool"
  reconnects :: "nat \<Rightarrow> bool"

definition target_label :: "upstream_kind \<Rightarrow> string" where
  "target_label k = (case k of Chain \<Rightarrow> ''chain'' | Ephem \<Rightarrow> ''er'')"

definition connection_new :: "url \<Rightarrow> channel \<Rightarrow> upstream_kind \<Rightarrow> connection" where
  "connection_new u unsub_tx target =
     \<lparr>conn_subscriptions = [], conn_inflights = Map.empty, conn_request_to_subs = Map.empty,
      conn_unsubscriptions_tx = unsub_tx, conn_url = u, conn_target = target_label target\<rparr>"


section \<open>Delivering to subscribers\<close>

text \<open>\<open>tx.send\<close>: fails when the receiver is gone.\<close>

definition deliver :: "conn_env \<Rightarrow> channel \<Rightarrow> pubsub_message \<Rightarrow> conn_world \<Rightarrow> bool \<times> conn_world" where
  "deliver E ch m w =
     (if channel_open E ch then (True, w\<lparr>delivered := delivered w @ [(ch, m)]\<rparr>) else (False, w))"

text \<open>The loop over listeners; returns the ids whose channel is closed.\<close>

fun notify_listeners ::
  "conn_env \<Rightarrow> json \<Rightarrow> listeners \<Rightarrow> conn_world \<Rightarrow> subscriber_id list \<times> conn_world" where
  "notify_listeners E payload [] w = ([], w)"
| "notify_listeners E payload ((sid, sh) # rest) w =
     (let (ok, w1) = deliver E (shn_tx sh) (Notification (shn_request_id sh) (shn_upstream sh) payload) w;
          (to_remove, w2) = notify_listeners E payload rest w1
      in (if ok then to_remove else sid # to_remove, w2))"

definition set_listeners :: "subscription_id \<Rightarrow> listeners \<Rightarrow> connection \<Rightarrow> connection" where
  "set_listeners n ls c =
     (if ls = [] then c\<lparr>conn_subscriptions := AList.delete n (conn_subscriptions c)\<rparr>
      else c\<lparr>conn_subscriptions := AList.update n ls (conn_subscriptions c)\<rparr>)"

definition on_notification :: "conn_env \<Rightarrow> notification_params \<Rightarrow> conn_world \<Rightarrow> conn_world" where
  "on_notification E p w =
     (case map_of (conn_subscriptions (conn w)) (np_subscription p) of
        None \<Rightarrow> w
      | Some ls \<Rightarrow>
          (case notify_listeners E (np_result p) ls w of
             (to_remove, w1) \<Rightarrow>
               w1\<lparr>conn := set_listeners (np_subscription p)
                            (fold AList.delete to_remove ls) (conn w1)\<rparr>))"

definition on_subscribed :: "conn_env \<Rightarrow> subscription_result \<Rightarrow> conn_world \<Rightarrow> conn_world" where
  "on_subscribed E s w =
     (case conn_inflights (conn w) (sr_id s) of
        None \<Rightarrow> w
      | Some sub \<Rightarrow>
          (let c1 = (conn w)\<lparr>conn_inflights := (conn_inflights (conn w))(sr_id s := None),
                             conn_request_to_subs :=
                               (conn_request_to_subs (conn w))(sr_id s \<mapsto> sr_result s)\<rparr>;
               handle = \<lparr>sh_request_id = sr_id s, sh_unsub = conn_unsubscriptions_tx c1,
                         sh_upstream = sub_upstream sub\<rparr>
           in case deliver E (sub_tx sub) (Subscribed handle) (w\<lparr>conn := c1\<rparr>) of
                (False, w1) \<Rightarrow> w1
              | (True, w1) \<Rightarrow>
                  (let ls = (case map_of (conn_subscriptions c1) (sr_result s) of
                               None \<Rightarrow> [] | Some ls \<Rightarrow> ls);
                       h = \<lparr>shn_request_id = sub_request_id sub, shn_upstream = sub_upstream sub,
                            shn_tx = sub_tx sub\<rparr>
                   in w1\<lparr>conn := c1\<lparr>conn_subscriptions :=
                          AList.update (sr_result s) (AList.update (sub_subscriber_id sub) h ls)
                            (conn_subscriptions c1)\<rparr>\<rparr>)))"


section \<open>Reconnecting\<close>

definition MAX_RECONNECT_ATTEMPTS :: nat where
  "MAX_RECONNECT_ATTEMPTS = 16"

text \<open>The connection loop from a given number of failed attempts; also counts the one-second sleeps.\<close>

function reconnect_loop :: "conn_env \<Rightarrow> nat \<Rightarrow> nat \<Rightarrow> bool \<times> nat" where
  "reconnect_loop E attempt slept =
     (if reconnects E attempt then (True, slept)
      else if MAX_RECONNECT_ATTEMPTS < attempt + 1 then (False, slept)
      else reconnect_loop E (attempt + 1) (slept + 1))"
  by pat_completeness auto
termination
  by (relation "measure (\<lambda>(E, attempt, slept). Suc MAX_RECONNECT_ATTEMPTS - attempt)") auto

declare reconnect_loop.simps [simp del]

fun announce_disconnect :: "conn_env \<Rightarrow> listeners \<Rightarrow> conn_world \<Rightarrow> conn_world" where
  "announce_disconnect E [] w = w"
| "announce_disconnect E ((_, sh) # rest) w =
     announce_disconnect E rest (snd (deliver E (shn_tx sh) (Disconnected (shn_request_id sh)) w))"

definition reestablish :: "conn_env \<Rightarrow> conn_world \<Rightarrow> bool \<times> conn_world" where
  "reestablish E w =
     (let w1 = w\<lparr>conn := (conn w)\<lparr>conn_request_to_subs := Map.empty, conn_subscriptions := []\<rparr>\<rparr>;
          w2 = announce_disconnect E (concat (map snd (conn_subscriptions (conn w)))) w1
      in (fst (reconnect_loop E 0 0), w2))"


section \<open>Requests\<close>

definition count_upstream :: "conn_world \<Rightarrow> conn_world" where
  "count_upstream w =
     w\<lparr>conn_metrics := (conn_metrics w)\<lparr>m_upstream :=
         upd_label 0 Suc (conn_target (conn w)) (m_upstream (conn_metrics w))\<rparr>\<rparr>"

text \<open>A send on the socket; a failed one reconnects, and the loop ends when that fails too.\<close>

definition socket_send :: "conn_env \<Rightarrow> json \<Rightarrow> conn_world \<Rightarrow> bool \<times> conn_world" where
  "socket_send E text w =
     (if socket_ok E text then (True, w\<lparr>wire := wire w @ [text]\<rparr>) else reestablish E w)"

definition unsubscription_json :: "request_id \<Rightarrow> string \<Rightarrow> subscription_id \<Rightarrow> json" where
  "unsubscription_json rid method subid =
     JObject [(''jsonrpc'', JString ''2.0''), (''id'', request_id_json rid),
              (''method'', JString method), (''params'', JArray [JU64 subid])]"

definition on_unsubscription :: "conn_env \<Rightarrow> unsubscription \<Rightarrow> conn_world \<Rightarrow> bool \<times> conn_world" where
  "on_unsubscription E u w =
     (case conn_request_to_subs (conn w) (unsub_request_id u) of
        None \<Rightarrow> (True, w)
      | Some subid \<Rightarrow>
          (let (rid, n) = generate RequestId (id_counter w);
               w1 = w\<lparr>id_counter := n\<rparr>
           in case map_of (conn_subscriptions (conn w1)) subid of
                None \<Rightarrow> (True, w1)
              | Some ls \<Rightarrow>
                  (let w2 = w1\<lparr>conn := set_listeners subid
                                 (AList.delete (unsub_subscriber_id u) ls) (conn w1)\<rparr>
                   in socket_send E (unsubscription_json rid (unsub_method u) subid) (count_upstream w2))))"

definition on_request :: "conn_env \<Rightarrow> subscription \<Rightarrow> conn_world \<Rightarrow> bool \<times> conn_world" where
  "on_request E s w =
     (let w1 = w\<lparr>conn := (conn w)\<lparr>conn_inflights :=
                   (conn_inflights (conn w))(sub_request_id s \<mapsto> s)\<rparr>\<rparr>
      in socket_send E (sub_payload s) (count_upstream w1))"


section \<open>The loop\<close>

text \<open>\<open>Received\<close> carries the parsed text or bytes, \<open>None\<close> for a pong or an unreadable message;
  \<open>PingTick\<close> whether the ping could be sent.  The \<open>else\<close> branch is not an event: it needs every branch
  disabled, and the ping branch never is.\<close>

datatype conn_event =
    Received "json option"
  | Unsubscribe unsubscription
  | Request subscription
  | PingTick bool

fun on_message :: "conn_env \<Rightarrow> json option \<Rightarrow> conn_world \<Rightarrow> conn_world" where
  "on_message E None w = w"
| "on_message E (Some text) w =
     (case websocket_message_deserialize text of
        None \<Rightarrow> w
      | Some (WsNotification p) \<Rightarrow> on_notification E p w
      | Some (WsSubscribed s) \<Rightarrow> on_subscribed E s w
      | Some (WsUnsubscribed _) \<Rightarrow> w)"

text \<open>One iteration; \<open>False\<close> leaves the loop.\<close>

fun conn_step :: "conn_env \<Rightarrow> conn_event \<Rightarrow> conn_world \<Rightarrow> bool \<times> conn_world" where
  "conn_step E (Received m) w = (True, on_message E m w)"
| "conn_step E (Unsubscribe u) w = on_unsubscription E u w"
| "conn_step E (Request s) w = on_request E s w"
| "conn_step E (PingTick ok) w = (if ok then (True, w) else reestablish E w)"

fun conn_run :: "(conn_env \<times> conn_event) list \<Rightarrow> conn_world \<Rightarrow> conn_world" where
  "conn_run [] w = w"
| "conn_run ((E, e) # es) w =
     (case conn_step E e w of (True, w') \<Rightarrow> conn_run es w' | (False, w') \<Rightarrow> w')"

text \<open>The task \<open>receive\<close> moves messages from the socket to the handler until either end closes.\<close>

fun receive_loop :: "(string, 'm) result list \<Rightarrow> bool list \<Rightarrow> 'm list" where
  "receive_loop (Inr m # ms) (True # opens) = m # receive_loop ms opens"
| "receive_loop _ _ = []"


section \<open>Fan-out of notifications\<close>

definition listening :: "conn_env \<Rightarrow> listeners \<Rightarrow> listeners" where
  "listening E ls = filter (\<lambda>(_, sh). channel_open E (shn_tx sh)) ls"

lemma notify_listeners_eq:
  "notify_listeners E payload ls w =
     (map fst (filter (\<lambda>(_, sh). \<not> channel_open E (shn_tx sh)) ls),
      w\<lparr>delivered := delivered w
          @ map (\<lambda>(_, sh). (shn_tx sh, Notification (shn_request_id sh) (shn_upstream sh) payload))
              (listening E ls)\<rparr>)"
  by (induction E payload ls w rule: notify_listeners.induct)
     (auto simp: deliver_def listening_def Let_def)

lemma fold_delete_filter: "fold AList.delete ks xs = filter (\<lambda>(k, _). k \<notin> set ks) xs"
proof (induction ks arbitrary: xs)
  case (Cons k ks)
  then show ?case by (auto simp: AList.delete_eq intro!: filter_cong)
qed simp

lemma delete_closed_eq:
  assumes "distinct (map fst ls)"
  shows "fold AList.delete (map fst (filter (\<lambda>(_, sh). \<not> channel_open E (shn_tx sh)) ls)) ls = listening E ls"
proof -
  have "sid \<notin> fst ` {x \<in> set ls. \<not> channel_open E (shn_tx (snd x))} \<longleftrightarrow> channel_open E (shn_tx sh)"
    if "(sid, sh) \<in> set ls" for sid sh
    using that assms by (force simp: distinct_map inj_on_def)
  then show ?thesis
    unfolding fold_delete_filter listening_def
    by (intro filter_cong) (auto simp: case_prod_beta')
qed

lemma map_of_set_listeners:
  "map_of (conn_subscriptions (set_listeners n ls c)) =
     (map_of (conn_subscriptions c))(n := (if ls = [] then None else Some ls))"
  by (simp add: set_listeners_def update_conv' delete_conv' restrict_map_def fun_eq_iff)

text \<open>C10: A notification for a confirmed subscription is handed to each of its listeners whose channel is
  open exactly once, with the listener's own request id and upstream tag; listeners that are gone are
  dropped, the subscription disappears with its last listener, and no other subscription changes.\<close>

theorem notification_fan_out:
  assumes "websocket_message_deserialize text = Some (WsNotification p)"
    and "map_of (conn_subscriptions (conn w)) (np_subscription p) = Some ls"
    and "distinct (map fst ls)"
  shows "delivered (on_message E (Some text) w) = delivered w
      @ map (\<lambda>(_, sh). (shn_tx sh, Notification (shn_request_id sh) (shn_upstream sh) (np_result p)))
          (filter (\<lambda>(_, sh). channel_open E (shn_tx sh)) ls)
    \<and> map_of (conn_subscriptions (conn (on_message E (Some text) w))) =
        (map_of (conn_subscriptions (conn w)))(np_subscription p :=
          (let left = filter (\<lambda>(_, sh). channel_open E (shn_tx sh)) ls in if left = [] then None else Some left))"
  using assms delete_closed_eq [OF assms(3), of E]
  by (simp add: on_notification_def notify_listeners_eq map_of_set_listeners Let_def listening_def)

definition sample_conn_env :: conn_env where
  "sample_conn_env =
     \<lparr>channel_open = (\<lambda>ch. ch \<noteq> 3), socket_ok = (\<lambda>_. True), reconnects = (\<lambda>n. n = 2)\<rparr>"

definition sample_listener :: "u64 \<Rightarrow> channel \<Rightarrow> subscriber_id \<times> subscriber_handle" where
  "sample_listener i ch =
     (SubscriberId i, \<lparr>shn_request_id = RequestId (i + 10), shn_upstream = Chain, shn_tx = ch\<rparr>)"

definition sample_world :: conn_world where
  "sample_world =
     \<lparr>conn = (connection_new ''ws'' 9 Chain)\<lparr>
        conn_subscriptions := [(7, [sample_listener 1 1, sample_listener 2 2, sample_listener 3 3])],
        conn_request_to_subs := [RequestId 11 \<mapsto> 7, RequestId 12 \<mapsto> 7, RequestId 13 \<mapsto> 7]\<rparr>,
      id_counter = 20, delivered = [], wire = [], conn_metrics = metrics_new\<rparr>"

definition sample_notification :: json where
  "sample_notification =
     JObject [(''method'', JString ''accountNotification''),
              (''params'', JObject [(''result'', JString ''x''), (''subscription'', JU64 7)])]"

lemma sample_notification_parsed:
  "websocket_message_deserialize sample_notification
     = Some (WsNotification \<lparr>np_result = JString ''x'', np_subscription = 7\<rparr>)"
  by (simp add: sample_notification_def websocket_message_deserialize_def json_notification_def)

theorem notification_fan_out_witness:
  "delivered (on_message sample_conn_env (Some sample_notification) sample_world)
     = [(1, Notification (RequestId 11) Chain (JString ''x'')),
        (2, Notification (RequestId 12) Chain (JString ''x''))]"
  using notification_fan_out [OF sample_notification_parsed, of sample_world
      "[sample_listener 1 1, sample_listener 2 2, sample_listener 3 3]" sample_conn_env]
  by (simp add: sample_world_def sample_listener_def sample_conn_env_def connection_new_def)


section \<open>The tables stay consistent\<close>

text \<open>Listeners are never an empty list, ids are distinct, and every listener's request can be translated
  for an unsubscription.\<close>

definition wf_listeners :: "connection \<Rightarrow> listeners \<Rightarrow> bool" where
  "wf_listeners c ls \<longleftrightarrow> ls \<noteq> [] \<and> distinct (map fst ls)
     \<and> (\<forall>x \<in> set ls. conn_request_to_subs c (shn_request_id (snd x)) \<noteq> None)"

definition wf_conn :: "connection \<Rightarrow> bool" where
  "wf_conn c \<longleftrightarrow> distinct (map fst (conn_subscriptions c))
     \<and> (\<forall>x \<in> set (conn_subscriptions c). wf_listeners c (snd x))
     \<and> (\<forall>r s. conn_inflights c r = Some s \<longrightarrow> sub_request_id s = r)"

lemma wf_conn_lookup: "wf_conn c \<Longrightarrow> map_of (conn_subscriptions c) n = Some ls \<Longrightarrow> wf_listeners c ls"
  unfolding wf_conn_def by (metis map_of_SomeD snd_conv)

lemma wf_listeners_frame [simp]:
  "wf_listeners (c\<lparr>conn_subscriptions := X\<rparr>) ls \<longleftrightarrow> wf_listeners c ls"
  by (simp add: wf_listeners_def)

lemma set_update_subset: "set (AList.update k v xs) \<subseteq> insert (k, v) (set xs)"
  by (induction xs) auto

lemma wf_listeners_update:
  assumes "wf_listeners c ls" and "conn_request_to_subs c (shn_request_id h) \<noteq> None"
  shows "wf_listeners c (AList.update sid h ls)"
proof -
  have "conn_request_to_subs c (shn_request_id (snd x)) \<noteq> None" if "x \<in> set (AList.update sid h ls)" for x
    using that assms set_update_subset [of sid h ls] unfolding wf_listeners_def by (metis insertE snd_conv subsetD)
  with assms(1) show ?thesis by (simp add: wf_listeners_def distinct_update)
qed

lemma wf_conn_update:
  "wf_conn c \<Longrightarrow> wf_listeners c ls \<Longrightarrow> wf_conn (c\<lparr>conn_subscriptions := AList.update n ls (conn_subscriptions c)\<rparr>)"
  using set_update_subset [of n ls "conn_subscriptions c"]
  by (auto simp: wf_conn_def distinct_update)

lemma wf_conn_delete:
  "wf_conn c \<Longrightarrow> wf_conn (c\<lparr>conn_subscriptions := AList.delete n (conn_subscriptions c)\<rparr>)"
  by (auto simp: wf_conn_def AList.delete_eq distinct_map_filter)

lemma wf_conn_set_listeners:
  assumes "wf_conn c" and "wf_listeners c ls0" and "set ls \<subseteq> set ls0" and "distinct (map fst ls)"
  shows "wf_conn (set_listeners n ls c)"
proof (cases "ls = []")
  case False
  with assms have "wf_listeners c ls" by (auto simp: wf_listeners_def)
  with assms(1) False show ?thesis by (simp add: set_listeners_def wf_conn_update)
qed (simp add: set_listeners_def wf_conn_delete assms(1))

lemma wf_on_notification: "wf_conn (conn w) \<Longrightarrow> wf_conn (conn (on_notification E p w))"
proof -
  assume wf: "wf_conn (conn w)"
  show ?thesis
  proof (cases "map_of (conn_subscriptions (conn w)) (np_subscription p)")
    case (Some ls)
    note ls = wf_conn_lookup [OF wf Some]
    then have d: "distinct (map fst ls)" by (simp add: wf_listeners_def)
    have "wf_conn (set_listeners (np_subscription p) (listening E ls) (conn w))"
      by (rule wf_conn_set_listeners [OF wf ls]) (auto simp: listening_def d distinct_map_filter)
    then show ?thesis
      by (simp add: on_notification_def Some notify_listeners_eq delete_closed_eq [OF d])
  qed (simp add: on_notification_def wf)
qed

lemma wf_on_subscribed:
  assumes wf: "wf_conn (conn w)"
  shows "wf_conn (conn (on_subscribed E s w))"
proof (cases "conn_inflights (conn w) (sr_id s)")
  case (Some sub)
  let ?c1 = "(conn w)\<lparr>conn_inflights := (conn_inflights (conn w))(sr_id s := None),
      conn_request_to_subs := (conn_request_to_subs (conn w))(sr_id s \<mapsto> sr_result s)\<rparr>"
  have wf1: "wf_conn ?c1" using wf by (auto simp: wf_conn_def wf_listeners_def)
  have rid: "sub_request_id sub = sr_id s" using wf Some by (auto simp: wf_conn_def)
  let ?h = "\<lparr>shn_request_id = sub_request_id sub, shn_upstream = sub_upstream sub, shn_tx = sub_tx sub\<rparr>"
  let ?ls = "case map_of (conn_subscriptions ?c1) (sr_result s) of None \<Rightarrow> [] | Some ls \<Rightarrow> ls"
  have "wf_listeners ?c1 (AList.update (sub_subscriber_id sub) ?h ?ls)"
  proof (cases "map_of (conn_subscriptions ?c1) (sr_result s)")
    case None
    then show ?thesis by (simp add: wf_listeners_def rid)
  next
    case (Some ls)
    have "wf_listeners ?c1 (AList.update (sub_subscriber_id sub) ?h ls)"
      by (rule wf_listeners_update [OF wf_conn_lookup [OF wf1 Some]]) (simp add: rid)
    then show ?thesis using Some by simp
  qed
  note upd = wf_conn_update [OF wf1 this, of "sr_result s"]
  show ?thesis
    using wf1 upd by (simp add: on_subscribed_def Some deliver_def Let_def)
qed (simp add: on_subscribed_def wf)

lemma conn_announce [simp]: "conn (announce_disconnect E ls w) = conn w"
  by (induction E ls w rule: announce_disconnect.induct) (simp_all add: deliver_def)

lemma wf_reestablish: "wf_conn (conn w) \<Longrightarrow> wf_conn (conn (snd (reestablish E w)))"
  by (simp add: reestablish_def Let_def wf_conn_def)

lemma wf_socket_send: "wf_conn (conn w) \<Longrightarrow> wf_conn (conn (snd (socket_send E t w)))"
  by (simp add: socket_send_def wf_reestablish)

lemma conn_count_upstream [simp]: "conn (count_upstream w) = conn w"
  by (simp add: count_upstream_def)

lemma wf_on_unsubscription:
  assumes wf: "wf_conn (conn w)"
  shows "wf_conn (conn (snd (on_unsubscription E u w)))"
proof (cases "conn_request_to_subs (conn w) (unsub_request_id u)")
  case (Some n)
  note sub = this
  show ?thesis
  proof (cases "map_of (conn_subscriptions (conn w)) n")
    case (Some ls)
    note ls = wf_conn_lookup [OF wf Some]
    have "wf_conn (set_listeners n (AList.delete (unsub_subscriber_id u) ls) (conn w))"
      by (rule wf_conn_set_listeners [OF wf ls])
         (use ls in \<open>auto simp: wf_listeners_def AList.delete_eq distinct_map_filter\<close>)
    then show ?thesis
      by (simp add: on_unsubscription_def sub Some generate_def Let_def wf_socket_send)
  qed (simp add: on_unsubscription_def sub generate_def Let_def wf)
qed (simp add: on_unsubscription_def wf)

lemma wf_on_request: "wf_conn (conn w) \<Longrightarrow> wf_conn (conn (snd (on_request E s w)))"
  unfolding on_request_def Let_def
  by (intro wf_socket_send) (auto simp: wf_conn_def wf_listeners_def)

lemma wf_conn_step: "wf_conn (conn w) \<Longrightarrow> wf_conn (conn (snd (conn_step E e w)))"
proof (cases e)
  case (Received m)
  assume "wf_conn (conn w)"
  with Received show ?thesis
    by (cases m)
       (auto simp: wf_on_notification wf_on_subscribed split: option.splits websocket_message.splits)
qed (simp_all add: wf_on_unsubscription wf_on_request wf_reestablish)

text \<open>C11: Whatever arrives on a connection and whatever fails, its tables stay consistent: no subscription
  without listeners, no listener twice, and every listener's request id can still be translated into
  an upstream subscription, so that it can be unsubscribed.\<close>

theorem connection_tables_consistent:
  "wf_conn (conn (conn_run events \<lparr>conn = connection_new u ch target, id_counter = n, delivered = [],
                                   wire = [], conn_metrics = M\<rparr>))"
proof -
  have "wf_conn (conn w) \<Longrightarrow> wf_conn (conn (conn_run events w))" for w
  proof (induction events w rule: conn_run.induct)
    case (2 E e es w)
    obtain b w' where step: "conn_step E e w = (b, w')" by fastforce
    with wf_conn_step [OF 2(2), of E e] have "wf_conn (conn w')" by simp
    with 2(1) step show ?case by (cases b) simp_all
  qed simp
  note keep = this
  show ?thesis by (rule keep) (simp add: connection_new_def wf_conn_def)
qed


section \<open>Reconnection\<close>

lemma announce_delivered:
  "delivered (announce_disconnect E ls w) = delivered w
     @ map (\<lambda>(_, sh). (shn_tx sh, Disconnected (shn_request_id sh))) (listening E ls)"
  by (induction E ls w rule: announce_disconnect.induct) (auto simp: deliver_def listening_def)

lemma reconnect_loop_attempts:
  assumes "attempt \<le> MAX_RECONNECT_ATTEMPTS"
  shows "(fst (reconnect_loop E attempt t) \<longleftrightarrow> (\<exists>n. attempt \<le> n \<and> n \<le> MAX_RECONNECT_ATTEMPTS \<and> reconnects E n))
    \<and> snd (reconnect_loop E attempt t) \<le> t + (MAX_RECONNECT_ATTEMPTS - attempt)"
  using assms
proof (induction E attempt t rule: reconnect_loop.induct)
  case (1 E attempt t)
  consider "reconnects E attempt" | "\<not> reconnects E attempt" "attempt = MAX_RECONNECT_ATTEMPTS"
    | "\<not> reconnects E attempt" "attempt < MAX_RECONNECT_ATTEMPTS"
    using 1(2) by linarith
  then show ?case
  proof cases
    case 1
    with "1.prems" show ?thesis by (subst (1 2) reconnect_loop.simps) auto
  next
    case 2
    then show ?thesis by (subst (1 2) reconnect_loop.simps) auto
  next
    case 3
    then have IH: "(fst (reconnect_loop E (attempt + 1) (t + 1))
          \<longleftrightarrow> (\<exists>n \<ge> attempt + 1. n \<le> MAX_RECONNECT_ATTEMPTS \<and> reconnects E n))
        \<and> snd (reconnect_loop E (attempt + 1) (t + 1)) \<le> t + 1 + (MAX_RECONNECT_ATTEMPTS - (attempt + 1))"
      using "1.IH" by simp
    have eq: "reconnect_loop E attempt t = reconnect_loop E (attempt + 1) (t + 1)"
      using 3 by (subst reconnect_loop.simps) simp
    have "(\<exists>n \<ge> attempt + 1. n \<le> MAX_RECONNECT_ATTEMPTS \<and> reconnects E n)
        \<longleftrightarrow> (\<exists>n \<ge> attempt. n \<le> MAX_RECONNECT_ATTEMPTS \<and> reconnects E n)"
      using 3(1) by (metis Suc_eq_plus1 Suc_leD Suc_leI le_neq_implies_less)
    with IH 3 show ?thesis unfolding eq by auto
  qed
qed

text \<open>C18: Re-establishing a connection always comes to an end: it succeeds exactly when one of 17 attempts
  does, after at most 16 seconds of waiting.  Before that every listener with an open channel has been
  told once that its subscription is gone, under its own request id, and the tables of confirmed
  subscriptions are empty.\<close>

theorem reestablish_announces_and_ends:
  "(fst (reestablish E w) \<longleftrightarrow> (\<exists>n. n \<le> 16 \<and> reconnects E n))
   \<and> snd (reconnect_loop E 0 0) \<le> 16
   \<and> delivered (snd (reestablish E w)) = delivered w
       @ map (\<lambda>(_, sh). (shn_tx sh, Disconnected (shn_request_id sh)))
           (filter (\<lambda>(_, sh). channel_open E (shn_tx sh)) (concat (map snd (conn_subscriptions (conn w)))))
   \<and> conn_subscriptions (conn (snd (reestablish E w))) = []
   \<and> conn_request_to_subs (conn (snd (reestablish E w))) = Map.empty"
  using reconnect_loop_attempts [of 0 E 0]
  by (simp add: reestablish_def Let_def announce_delivered listening_def MAX_RECONNECT_ATTEMPTS_def)

text \<open>C40: A subscription request whose send fails is neither sent again nor reported: after the successful
  reconnection it is still in the table of unconfirmed requests, nothing was written to the socket and
  its subscriber, unless it listens to another subscription, has received nothing.\<close>

theorem failed_request_is_stranded:
  assumes "\<not> socket_ok E (sub_payload s)" and "reconnects E 0"
    and "sub_tx s \<notin> (shn_tx \<circ> snd) ` set (concat (map snd (conn_subscriptions (conn w))))"
  shows "fst (on_request E s w) \<and> conn_inflights (conn (snd (on_request E s w))) (sub_request_id s) = Some s
    \<and> wire (snd (on_request E s w)) = wire w
    \<and> filter (\<lambda>d. fst d = sub_tx s) (delivered (snd (on_request E s w)))
        = filter (\<lambda>d. fst d = sub_tx s) (delivered w)"
proof -
  let ?w1 = "count_upstream (w\<lparr>conn := (conn w)\<lparr>conn_inflights :=
      (conn_inflights (conn w))(sub_request_id s \<mapsto> s)\<rparr>\<rparr>)"
  have step: "on_request E s w = reestablish E ?w1"
    using assms(1) by (simp add: on_request_def socket_send_def Let_def)
  have wire: "wire (announce_disconnect E ls v) = wire v" for ls v
    by (induction E ls v rule: announce_disconnect.induct) (simp_all add: deliver_def)
  have "fst (reconnect_loop E 0 0)" using assms(2) by (subst reconnect_loop.simps) simp
  moreover have "filter (\<lambda>d. fst d = sub_tx s)
      (map (\<lambda>(_, sh). (shn_tx sh, Disconnected (shn_request_id sh))) (listening E ls)) = []"
    if "sub_tx s \<notin> (shn_tx \<circ> snd) ` set ls" for ls
    using that by (induction ls) (auto simp: listening_def)
  ultimately show ?thesis
    unfolding step reestablish_def Let_def
    using assms(3) by (simp add: wire announce_delivered count_upstream_def)
qed

definition sample_subscription :: subscription where
  "sample_subscription =
     \<lparr>sub_request_id = RequestId 30, sub_subscriber_id = SubscriberId 4, sub_payload = JNull,
      sub_tx = 5, sub_destination = ''ws'', sub_upstream = Chain\<rparr>"

definition broken_socket :: conn_env where
  "broken_socket = sample_conn_env\<lparr>socket_ok := (\<lambda>_. False), reconnects := (\<lambda>_. True)\<rparr>"

theorem failed_request_is_stranded_witness:
  "conn_inflights (conn (snd (on_request broken_socket sample_subscription sample_world))) (RequestId 30)
       = Some sample_subscription
   \<and> wire (snd (on_request broken_socket sample_subscription sample_world)) = []"
proof -
  have "sub_tx sample_subscription
      \<notin> (shn_tx \<circ> snd) ` set (concat (map snd (conn_subscriptions (conn sample_world))))"
    "\<not> socket_ok broken_socket (sub_payload sample_subscription)" "reconnects broken_socket 0"
    "sub_request_id sample_subscription = RequestId 30" "wire sample_world = []"
    by (simp_all add: sample_world_def sample_listener_def sample_subscription_def broken_socket_def)
  with failed_request_is_stranded [of broken_socket sample_subscription sample_world] show ?thesis
    by metis
qed

text \<open>C39: Unsubscribing one of several listeners of a subscription cancels the subscription upstream,
  although the others stay registered and wait for notifications that will not come.\<close>

theorem unsubscribe_cuts_other_listeners:
  assumes "conn_request_to_subs (conn w) (unsub_request_id u) = Some n"
    and "map_of (conn_subscriptions (conn w)) n = Some ls"
    and "(other, sh) \<in> set ls" and "other \<noteq> unsub_subscriber_id u"
    and "\<And>t. socket_ok E t"
  shows "\<exists>ls'. map_of (conn_subscriptions (conn (snd (on_unsubscription E u w)))) n = Some ls'
      \<and> (other, sh) \<in> set ls'
      \<and> wire (snd (on_unsubscription E u w))
          = wire w @ [unsubscription_json (RequestId (id_counter w)) (unsub_method u) n]"
proof -
  let ?ls = "AList.delete (unsub_subscriber_id u) ls"
  have "(other, sh) \<in> set ?ls" using assms(3,4) by (auto simp: AList.delete_eq)
  moreover from this have "?ls \<noteq> []" by auto
  ultimately show ?thesis
    using assms(1,2,5)
    by (simp add: on_unsubscription_def generate_def Let_def socket_send_def map_of_set_listeners)
       (simp add: count_upstream_def)
qed

theorem unsubscribe_cuts_other_listeners_witness:
  "\<exists>ls'. map_of (conn_subscriptions (conn (snd (on_unsubscription sample_conn_env
        \<lparr>unsub_subscriber_id = SubscriberId 1, unsub_request_id = RequestId 11,
         unsub_method = ''accountUnsubscribe''\<rparr> sample_world)))) 7 = Some ls'
     \<and> sample_listener 2 2 \<in> set ls'"
proof -
  from unsubscribe_cuts_other_listeners [of sample_world
      "\<lparr>unsub_subscriber_id = SubscriberId 1, unsub_request_id = RequestId 11,
        unsub_method = ''accountUnsubscribe''\<rparr>" 7
      "[sample_listener 1 1, sample_listener 2 2, sample_listener 3 3]"
      "SubscriberId 2" "snd (sample_listener 2 2)" sample_conn_env]
  show ?thesis
    by (auto simp: sample_world_def sample_conn_env_def sample_listener_def)
qed

end
