(* ===== verification/Dispatch.thy ===== *)
theory Dispatch
  imports Pubsub_Types Metrics
begin

text \<open>
  \<open>src/pubsub/dispatch.rs\<close>: the dispatcher that owns one queue of subscription requests per websocket
  upstream, opens connections to upstreams that come online and forgets upstreams that go offline.
  Each branch of its \<open>select!\<close> is an event.  Whether a handshake succeeds and whether a queue still has
  a connection reading from it is the argument \<open>dispatch_env\<close>; the bound of the queues is not modelled.
\<close>

section \<open>State\<close>

record dispatcher =
  upstream_queues :: "url \<rightharpoonup> channel"
  connections_per_upstream :: u16
  connecting :: "(url \<times> upstream_kind) list"
  ready :: bool
  ready_notified :: nat
  connection_ids :: u32
  spawned :: "(channel \<times> url \<times> upstream_kind \<times> nat) list"
  queued :: "(channel \<times> subscription) list"
  dispatch_metrics :: metrics

record dispatch_env =
  handshake :: "url \<Rightarrow> nat \<Rightarrow> bool"
  has_receiver :: "channel \<Rightarrow> bool"

definition dispatcher_new :: "u16 \<Rightarrow> bool \<Rightarrow> metrics \<Rightarrow> dispatcher" where
  "dispatcher_new n rdy M =
     \<lparr>upstream_queues = Map.empty, connections_per_upstream = n, connecting = [], ready = rdy,
      ready_notified = 0, connection_ids = 0, spawned = [], queued = [], dispatch_metrics = M\<rparr>"


section \<open>Operations\<close>

text \<open>The loop over the connections of one upstream: counts the successful handshakes.\<close>

fun spawn_connections :: "(nat \<Rightarrow> bool) \<Rightarrow> nat list \<Rightarrow> nat \<times> metrics \<Rightarrow> nat \<times> metrics" where
  "spawn_connections ok [] acc = acc"
| "spawn_connections ok (i # is) (n, M) =
     (if ok i then spawn_connections ok is (Suc n, M)
      else spawn_connections ok is (n, metrics_error ''pubsub'' M))"

text \<open>\<open>try_spawn_connections\<close>: a fresh queue, whatever the number of connections that came up.\<close>

definition try_spawn_connections ::
  "dispatch_env \<Rightarrow> url \<Rightarrow> upstream_kind \<Rightarrow> dispatcher \<Rightarrow> channel \<times> dispatcher" where
  "try_spawn_connections E u target d =
     (let ch = length (spawned d);
          (n, M) = spawn_connections (handshake E u) [0..<unat (connections_per_upstream d)]
                     (0, dispatch_metrics d)
      in (ch, d\<lparr>connection_ids := connection_ids d + 1,
                spawned := spawned d @ [(ch, u, target, n)],
                dispatch_metrics := M\<rparr>))"

definition on_upstream_state :: "ws_upstream_state \<Rightarrow> dispatcher \<Rightarrow> dispatcher" where
  "on_upstream_state st d =
     (if \<not> is_online st then d\<lparr>upstream_queues := (upstream_queues d)(state_url st := None)\<rparr>
      else if upstream_queues d (state_url st) \<noteq> None then d
      else d\<lparr>connecting := connecting d @ [(state_url st, state_target st)]\<rparr>)"

definition on_sub_request :: "dispatch_env \<Rightarrow> subscription \<Rightarrow> dispatcher \<Rightarrow> dispatcher" where
  "on_sub_request E s d =
     (case upstream_queues d (sub_destination s) of
        None \<Rightarrow> d
      | Some ch \<Rightarrow>
          if has_receiver E ch then d\<lparr>queued := queued d @ [(ch, s)]\<rparr>
          else d\<lparr>upstream_queues := (upstream_queues d)(sub_destination s := None)\<rparr>)"

text \<open>\<open>i\<close> is the attempt that completes.\<close>

definition on_connected :: "dispatch_env \<Rightarrow> nat \<Rightarrow> dispatcher \<Rightarrow> dispatcher" where
  "on_connected E i d =
     (if length (connecting d) \<le> i then d
      else
        (case connecting d ! i of
           (u, target) \<Rightarrow>
             (case try_spawn_connections E u target d of
                (ch, d1) \<Rightarrow>
                  (let d2 = d1\<lparr>connecting := take i (connecting d) @ drop (Suc i) (connecting d),
                               upstream_queues := (upstream_queues d1)(u \<mapsto> ch)\<rparr>
                   in if connecting d2 \<noteq> [] then d2
                      else if ready d2 then d2\<lparr>ready := False, ready_notified := Suc (ready_notified d2)\<rparr>
                      else d2))))"

datatype dispatch_event =
    UpstreamState ws_upstream_state
  | SubRequest subscription
  | Connected nat

fun dispatch_step :: "dispatch_env \<Rightarrow> dispatch_event \<Rightarrow> dispatcher \<Rightarrow> dispatcher" where
  "dispatch_step E (UpstreamState st) d = on_upstream_state st d"
| "dispatch_step E (SubRequest s) d = on_sub_request E s d"
| "dispatch_step E (Connected i) d = on_connected E i d"

definition dispatch_run :: "(dispatch_env \<times> dispatch_event) list \<Rightarrow> dispatcher \<Rightarrow> dispatcher" where
  "dispatch_run es d = fold (\<lambda>(E, e). dispatch_step E e) es d"


section \<open>Requests reach their destination only\<close>

definition queue_of :: "dispatcher \<Rightarrow> channel \<Rightarrow> url option" where
  "queue_of d ch = (if ch < length (spawned d) then Some (fst (snd (spawned d ! ch))) else None)"

definition dispatch_inv :: "dispatcher \<Rightarrow> bool" where
  "dispatch_inv d \<longleftrightarrow>
     (\<forall>u ch. upstream_queues d u = Some ch \<longrightarrow> queue_of d ch = Some u)
     \<and> (\<forall>x \<in> set (queued d). queue_of d (fst x) = Some (sub_destination (snd x)))
     \<and> ready_notified d \<le> (if ready d then 0 else 1)"

lemma queue_of_append:
  "queue_of d ch = Some u \<Longrightarrow> spawned d' = spawned d @ [x] \<Longrightarrow> queue_of d' ch = Some u"
  by (auto simp: queue_of_def nth_append split: if_splits)

lemma queue_of_new: "spawned d' = spawned d @ [(length (spawned d), u, t, n)] \<Longrightarrow> queue_of d' (length (spawned d)) = Some u"
  by (simp add: queue_of_def)

lemma queue_of_frame [simp]:
  "queue_of (d\<lparr>upstream_queues := X\<rparr>) ch = queue_of d ch"
  "queue_of (d\<lparr>connecting := C\<rparr>) ch = queue_of d ch"
  "queue_of (d\<lparr>queued := Q\<rparr>) ch = queue_of d ch"
  by (simp_all add: queue_of_def)

lemma on_connected_effect:
  assumes "i < length (connecting d)" and "connecting d ! i = (u, t)"
  shows "\<exists>n. spawned (on_connected E i d) = spawned d @ [(length (spawned d), u, t, n)]"
    and "upstream_queues (on_connected E i d) = (upstream_queues d)(u \<mapsto> length (spawned d))"
    and "queued (on_connected E i d) = queued d"
    and "connecting (on_connected E i d) = take i (connecting d) @ drop (Suc i) (connecting d)"
  using assms by (simp_all add: on_connected_def try_spawn_connections_def Let_def split_beta)

lemma on_connected_ready:
  "ready_notified d \<le> (if ready d then 0 else 1) \<Longrightarrow>
     ready_notified (on_connected E i d) \<le> (if ready (on_connected E i d) then 0 else 1)"
  by (auto simp: on_connected_def try_spawn_connections_def Let_def split_beta split: if_splits)

lemma inv_on_connected:
  assumes inv: "dispatch_inv d"
  shows "dispatch_inv (on_connected E i d)"
proof (cases "i < length (connecting d)")
  case True
  obtain u t where ut: "connecting d ! i = (u, t)" by fastforce
  note eff = on_connected_effect [OF True ut, of E]
  from eff(1) obtain n where sp: "spawned (on_connected E i d) = spawned d @ [(length (spawned d), u, t, n)]"
    by blast
  note old = queue_of_append [OF _ sp] and new = queue_of_new [OF sp]
  show ?thesis
    using inv old new on_connected_ready unfolding dispatch_inv_def eff(2,3)
    by (auto split: if_splits)
next
  case False
  with inv show ?thesis by (simp add: on_connected_def)
qed

lemma inv_dispatch_step: "dispatch_inv d \<Longrightarrow> dispatch_inv (dispatch_step E e d)"
proof (cases e)
  case (UpstreamState st)
  assume "dispatch_inv d"
  with UpstreamState show ?thesis
    by (auto simp: dispatch_inv_def on_upstream_state_def)
next
  case (SubRequest s)
  assume "dispatch_inv d"
  with SubRequest show ?thesis
    by (auto simp: dispatch_inv_def on_sub_request_def split: option.splits)
qed (simp add: inv_on_connected)

definition dispatch_init :: "dispatcher \<Rightarrow> bool" where
  "dispatch_init d \<longleftrightarrow> (\<exists>n r M. d = dispatcher_new n r M)"

definition dispatch_transition :: "dispatcher \<Rightarrow> dispatcher \<Rightarrow> bool" where
  "dispatch_transition d d' \<longleftrightarrow> (\<exists>E e. d' = dispatch_step E e d)"

interpretation dispatcher_system: step_invariant dispatch_init dispatch_transition dispatch_inv
  by standard
     (auto simp: dispatch_init_def dispatch_transition_def inv_dispatch_step,
      simp add: dispatcher_new_def dispatch_inv_def)

text \<open>Whatever order upstream states, requests and completed connections arrive in, every request that
  is queued sits in a queue that was opened to exactly the destination it names, and the start-up
  signal is given at most once.\<close>

theorem requests_reach_their_destination:
  assumes "reachable dispatch_init dispatch_transition d"
  shows "(\<forall>x. x \<in> set (queued d) \<longrightarrow> queue_of d (fst x) = Some (sub_destination (snd x)))
    \<and> ready_notified d \<le> 1"
  using dispatcher_system.inv_reachable [OF assms] by (auto simp: dispatch_inv_def split: if_splits)

definition sample_request :: subscription where
  "sample_request =
     \<lparr>sub_request_id = RequestId 1, sub_subscriber_id = SubscriberId 2, sub_payload = JNull, sub_tx = 0,
      sub_destination = ''ws1'', sub_upstream = Chain\<rparr>"

definition sample_dispatch_env :: dispatch_env where
  "sample_dispatch_env = \<lparr>handshake = (\<lambda>_ _. True), has_receiver = (\<lambda>_. True)\<rparr>"

definition sample_online :: "bool \<Rightarrow> ws_upstream_state" where
  "sample_online b = \<lparr>is_online = b, state_url = ''ws1'', state_target = Ephem\<rparr>"

definition sample_dispatcher :: dispatcher where
  "sample_dispatcher = dispatch_run
     [(sample_dispatch_env, UpstreamState (sample_online True)), (sample_dispatch_env, Connected 0),
      (sample_dispatch_env, SubRequest sample_request)] (dispatcher_new 1 True metrics_new)"

lemma dispatch_run_reachable:
  "reachable dispatch_init dispatch_transition d \<Longrightarrow>
     reachable dispatch_init dispatch_transition (dispatch_run es d)"
proof (induction es arbitrary: d)
  case (Cons x es)
  obtain E e where x: "x = (E, e)" by fastforce
  have "reachable dispatch_init dispatch_transition (dispatch_step E e d)"
    using Cons.prems by (rule reachable_step) (auto simp: dispatch_transition_def)
  with Cons.IH show ?case by (simp add: dispatch_run_def x)
qed (simp add: dispatch_run_def)

theorem requests_reach_their_destination_witness:
  "queued sample_dispatcher = [(0, sample_request)] \<and> queue_of sample_dispatcher 0 = Some ''ws1''"
proof -
  have "dispatch_init (dispatcher_new 1 True metrics_new)" by (auto simp: dispatch_init_def)
  then have r: "reachable dispatch_init dispatch_transition sample_dispatcher"
    unfolding sample_dispatcher_def by (intro dispatch_run_reachable reachable_init)
  have "queued sample_dispatcher = [(0, sample_request)]"
    by (simp add: sample_dispatcher_def dispatch_run_def dispatcher_new_def on_upstream_state_def
        sample_online_def on_connected_def try_spawn_connections_def on_sub_request_def
        sample_request_def sample_dispatch_env_def Let_def split_beta)
  with requests_reach_their_destination [OF r] show ?thesis
    by (simp add: sample_request_def)
qed

text \<open>An upstream that goes offline while its connections are still being opened is not forgotten: the
  offline state is dropped, and when the connections complete the upstream is entered as usable.\<close>

theorem offline_while_connecting_is_lost:
  assumes "connecting d = [(u, t)]"
  shows "upstream_queues (on_connected E 0 (on_upstream_state \<lparr>is_online = False, state_url = u, state_target = t\<rparr> d)) u
    \<noteq> None"
  using on_connected_effect(2) [of 0 "on_upstream_state \<lparr>is_online = False, state_url = u, state_target = t\<rparr> d" u t E]
    assms by (simp add: on_upstream_state_def)

theorem offline_while_connecting_is_lost_witness:
  "upstream_queues (on_connected sample_dispatch_env 0 (on_upstream_state
      \<lparr>is_online = False, state_url = ''ws1'', state_target = Ephem\<rparr>
      (on_upstream_state (sample_online True) (dispatcher_new 1 True metrics_new)))) ''ws1'' \<noteq> None"
  by (rule offline_while_connecting_is_lost)
     (simp add: on_upstream_state_def dispatcher_new_def sample_online_def)


section \<open>The start-up signal\<close>

text \<open>Before the first upstream is announced nothing can happen; from then on the signal is due: it has been
  given once, or connections are still being opened.\<close>

definition untouched :: "dispatcher \<Rightarrow> bool" where
  "untouched d \<longleftrightarrow> ready d \<and> ready_notified d = 0 \<and> connecting d = [] \<and> upstream_queues d = Map.empty"

definition signal_due :: "dispatcher \<Rightarrow> bool" where
  "signal_due d \<longleftrightarrow> (if ready d then ready_notified d = 0 \<and> connecting d \<noteq> [] else ready_notified d = 1)"

definition announced :: "(dispatch_env \<times> dispatch_event) list \<Rightarrow> ws_upstream_state list" where
  "announced es = List.map_filter (\<lambda>(_, e). case e of UpstreamState st \<Rightarrow> Some st | _ \<Rightarrow> None) es"

lemma announced_simps [simp]:
  "announced [] = []"
  "announced ((E, UpstreamState st) # es) = st # announced es"
  "announced ((E, SubRequest s) # es) = announced es"
  "announced ((E, Connected i) # es) = announced es"
  by (simp_all add: announced_def List.map_filter_simps)

lemma dispatch_run_simps [simp]:
  "dispatch_run [] d = d"
  "dispatch_run ((E, e) # es) d = dispatch_run es (dispatch_step E e d)"
  "dispatch_run (es @ es') d = dispatch_run es' (dispatch_run es d)"
  by (simp_all add: dispatch_run_def)

lemma on_connected_signal:
  assumes "signal_due d"
  shows "signal_due (on_connected E i d)"
  using assms
  by (auto simp: signal_due_def on_connected_def try_spawn_connections_def Let_def split_beta
      split: if_splits)

lemma signal_due_step: "signal_due d \<Longrightarrow> signal_due (dispatch_step E e d)"
  by (cases e) (auto simp: on_connected_signal, auto simp: signal_due_def on_upstream_state_def on_sub_request_def
      split: option.splits)

lemma signal_due_run: "signal_due d \<Longrightarrow> signal_due (dispatch_run es d)"
  by (induction es arbitrary: d) (auto simp: signal_due_step)

lemma untouched_step:
  "untouched d \<Longrightarrow> untouched (dispatch_step E (SubRequest s) d)"
  "untouched d \<Longrightarrow> untouched (dispatch_step E (Connected i) d)"
  "untouched d \<Longrightarrow> is_online st \<Longrightarrow> signal_due (dispatch_step E (UpstreamState st) d)"
  by (auto simp: untouched_def signal_due_def on_sub_request_def on_connected_def on_upstream_state_def)

lemma announced_signal_due:
  "untouched d \<Longrightarrow> announced es = st # sts \<Longrightarrow> is_online st \<Longrightarrow> signal_due (dispatch_run es d)"
proof (induction es arbitrary: d)
  case (Cons x es)
  obtain E e where x: "x = (E, e)" by fastforce
  with Cons show ?case
    by (cases e) (auto simp: untouched_step signal_due_run simp del: dispatch_step.simps)
qed simp

lemma connections_complete:
  "length Es = length (connecting d) \<Longrightarrow>
     connecting (dispatch_run (map (\<lambda>E. (E, Connected 0)) Es) d) = []"
proof (induction Es arbitrary: d)
  case (Cons E Es)
  obtain u t where "connecting d ! 0 = (u, t)" by fastforce
  with Cons.prems have "connecting (on_connected E 0 d) = drop (Suc 0) (connecting d)"
    by (subst on_connected_effect(4)) auto
  with Cons.prems Cons.IH [of "on_connected E 0 d"] show ?case by simp
qed simp

lemma signal_given:
  assumes "announced es = st # sts" and "is_online st"
    and "length Es = length (connecting (dispatch_run es (dispatcher_new n True M)))"
  shows "ready_notified (dispatch_run (es @ map (\<lambda>E. (E, Connected 0)) Es) (dispatcher_new n True M)) = 1"
proof -
  have "untouched (dispatcher_new n True M)"
    by (simp add: untouched_def dispatcher_new_def)
  then have "signal_due (dispatch_run es (dispatcher_new n True M))"
    by (rule announced_signal_due [OF _ assms(1,2)])
  from signal_due_run [OF this, of "map (\<lambda>E. (E, Connected 0)) Es"] connections_complete [OF assms(3)]
  show ?thesis by (simp add: signal_due_def split: if_splits)
qed

text \<open>The start-up signal does not wait for all upstreams: when the connections to the first announced
  upstream complete before the next one is announced, the signal is already given and the later
  upstream is not yet connected.\<close>

theorem startup_signal_may_be_early:
  assumes "is_online st" and "is_online st'" and "state_url st \<noteq> state_url st'"
  shows "let d = dispatch_run [(E, UpstreamState st), (E, Connected 0), (E, UpstreamState st')]
                   (dispatcher_new n True M)
         in ready_notified d = 1 \<and> connecting d = [(state_url st', state_target st')]
            \<and> upstream_queues d (state_url st') = None"
  using assms
  by (simp add: dispatcher_new_def on_upstream_state_def on_connected_def try_spawn_connections_def Let_def
      split_beta)

theorem startup_signal_may_be_early_witness:
  "ready_notified (dispatch_run [(sample_dispatch_env, UpstreamState (sample_online True)),
       (sample_dispatch_env, Connected 0),
       (sample_dispatch_env, UpstreamState \<lparr>is_online = True, state_url = ''ws2'', state_target = Ephem\<rparr>)]
     (dispatcher_new 1 True metrics_new)) = 1"
  using startup_signal_may_be_early [of "sample_online True"
      "\<lparr>is_online = True, state_url = ''ws2'', state_target = Ephem\<rparr>" sample_dispatch_env 1 metrics_new]
  by (simp add: sample_online_def Let_def del: dispatch_run_simps dispatch_step.simps)

end
