(* ===== verification/Pubsub_System.thy ===== *)
theory Pubsub_System
  imports Connection Dispatch
begin

text \<open>
  The dispatcher and its connections running together (\<open>src/pubsub/dispatch.rs\<close>, \<open>src/pubsub/connection.rs\<close>).
  Opening an upstream starts a number of connections that all read from the queue of that upstream; whichever
  is free takes the next request.  A queue has a reader as long as one of its connections is running.  The id
  counter and the metrics are shared by all connections.
\<close>

section \<open>State\<close>

record pool_member =
  pm_queue :: channel
  pm_running :: bool
  pm_world :: conn_world

record pubsub_system =
  ps_dispatcher :: dispatcher
  ps_members :: "pool_member list"
  ps_taken :: "channel \<Rightarrow> nat"
  ps_log :: "(nat \<times> subscription) list"
  ps_ids :: u64

text \<open>The requests ever accepted for a queue, in order.\<close>

definition accepted :: "channel \<Rightarrow> dispatcher \<Rightarrow> subscription list" where
  "accepted q d = map snd (filter (\<lambda>x. fst x = q) (queued d))"

definition has_member :: "pubsub_system \<Rightarrow> channel \<Rightarrow> bool" where
  "has_member S q \<longleftrightarrow> list_ex (\<lambda>m. pm_queue m = q \<and> pm_running m) (ps_members S)"

definition pool_env :: "(url \<Rightarrow> nat \<Rightarrow> bool) \<Rightarrow> pubsub_system \<Rightarrow> dispatch_env" where
  "pool_env hs S = \<lparr>handshake = hs, has_receiver = has_member S\<rparr>"

section \<open>Steps\<close>

text \<open>The connections of an upstream that was opened; the unsubscription channel of each is its own.\<close>

definition start_members ::
  "nat \<Rightarrow> u64 \<Rightarrow> metrics \<Rightarrow> channel \<times> url \<times> upstream_kind \<times> nat \<Rightarrow> pool_member list" where
  "start_members k ids M opened =
     (case opened of (q, u, target, n) \<Rightarrow>
        map (\<lambda>i. \<lparr>pm_queue = q, pm_running = True,
                   pm_world = \<lparr>conn = connection_new u (k + i) target, id_counter = ids, delivered = [],
                               wire = [], conn_metrics = M\<rparr>\<rparr>) [0..<n])"

definition dispatcher_turn :: "(url \<Rightarrow> nat \<Rightarrow> bool) \<Rightarrow> dispatch_event \<Rightarrow> pubsub_system \<Rightarrow> pubsub_system" where
  "dispatcher_turn hs e S =
     (let d = dispatch_step (pool_env hs S) e (ps_dispatcher S);
          opened = drop (length (spawned (ps_dispatcher S))) (spawned d)
      in S\<lparr>ps_dispatcher := d,
           ps_members := ps_members S
             @ concat (map (start_members (length (ps_members S)) (ps_ids S) (dispatch_metrics d)) opened)\<rparr>)"

text \<open>A connection handles an event with the shared counter and metrics; it ends when its loop does.\<close>

definition member_turn :: "conn_env \<Rightarrow> conn_event \<Rightarrow> nat \<Rightarrow> pubsub_system \<Rightarrow> pubsub_system" where
  "member_turn C e j S =
     (let m = ps_members S ! j;
          (running, w) = conn_step C e ((pm_world m)\<lparr>id_counter := ps_ids S,
                                         conn_metrics := dispatch_metrics (ps_dispatcher S)\<rparr>)
      in S\<lparr>ps_members := (ps_members S)[j := m\<lparr>pm_running := running, pm_world := w\<rparr>],
           ps_ids := id_counter w,
           ps_dispatcher := (ps_dispatcher S)\<lparr>dispatch_metrics := conn_metrics w\<rparr>\<rparr>)"

text \<open>A connection takes the next request of its queue.\<close>

definition take_request :: "conn_env \<Rightarrow> nat \<Rightarrow> pubsub_system \<Rightarrow> pubsub_system" where
  "take_request C j S =
     (let q = pm_queue (ps_members S ! j); n = ps_taken S q; reqs = accepted q (ps_dispatcher S)
      in if length reqs \<le> n then S
         else (member_turn C (Request (reqs ! n)) j S)
                \<lparr>ps_taken := (ps_taken S)(q := Suc n), ps_log := ps_log S @ [(j, reqs ! n)]\<rparr>)"

datatype pubsub_event =
    Dispatcher "url \<Rightarrow> nat \<Rightarrow> bool" dispatch_event
  | TakeRequest conn_env nat
  | Incoming_text conn_env "json option" nat
  | Incoming_unsub conn_env unsubscription nat
  | Ping conn_env bool nat

definition running_at :: "nat \<Rightarrow> pubsub_system \<Rightarrow> bool" where
  "running_at j S \<longleftrightarrow> j < length (ps_members S) \<and> pm_running (ps_members S ! j)"

fun pubsub_step :: "pubsub_event \<Rightarrow> pubsub_system \<Rightarrow> pubsub_system" where
  "pubsub_step (Dispatcher hs e) S = dispatcher_turn hs e S"
| "pubsub_step (TakeRequest C j) S = (if running_at j S then take_request C j S else S)"
| "pubsub_step (Incoming_text C t j) S = (if running_at j S then member_turn C (Received t) j S else S)"
| "pubsub_step (Incoming_unsub C u j) S = (if running_at j S then member_turn C (Unsubscribe u) j S else S)"
| "pubsub_step (Ping C ok j) S = (if running_at j S then member_turn C (PingTick ok) j S else S)"

definition pubsub_init :: "u16 \<Rightarrow> metrics \<Rightarrow> pubsub_system" where
  "pubsub_init n M =
     \<lparr>ps_dispatcher = dispatcher_new n True M, ps_members = [], ps_taken = (\<lambda>_. 0), ps_log = [],
      ps_ids = counter_init\<rparr>"


section \<open>Requests are served once, in order, by the right upstream\<close>

definition member_url :: "pool_member \<Rightarrow> url" where
  "member_url m = conn_url (conn (pm_world m))"

definition served :: "channel \<Rightarrow> pubsub_system \<Rightarrow> subscription list" where
  "served q S = map snd (filter (\<lambda>(j, _). pm_queue (ps_members S ! j) = q) (ps_log S))"

definition members_ok :: "pubsub_system \<Rightarrow> bool" where
  "members_ok S \<longleftrightarrow> (\<forall>m \<in> set (ps_members S). wf_conn (conn (pm_world m))
     \<and> queue_of (ps_dispatcher S) (pm_queue m) = Some (member_url m))"

definition log_ok :: "pubsub_system \<Rightarrow> bool" where
  "log_ok S \<longleftrightarrow> (\<forall>x \<in> set (ps_log S). fst x < length (ps_members S)
     \<and> member_url (ps_members S ! fst x) = sub_destination (snd x))"

definition queues_ok :: "pubsub_system \<Rightarrow> bool" where
  "queues_ok S \<longleftrightarrow> (\<forall>q. served q S = take (ps_taken S q) (accepted q (ps_dispatcher S))
     \<and> ps_taken S q \<le> length (accepted q (ps_dispatcher S)))"

definition pubsub_inv :: "pubsub_system \<Rightarrow> bool" where
  "pubsub_inv S \<longleftrightarrow> dispatch_inv (ps_dispatcher S) \<and> members_ok S \<and> log_ok S \<and> queues_ok S"

text \<open>A connection never changes its address.\<close>

lemma url_reestablish [simp]: "conn_url (conn (snd (reestablish C w))) = conn_url (conn w)"
  by (simp add: reestablish_def Let_def)

lemma url_socket_send [simp]: "conn_url (conn (snd (socket_send C t w))) = conn_url (conn w)"
  by (simp add: socket_send_def)

lemma url_set_listeners [simp]: "conn_url (set_listeners n ls c) = conn_url c"
  by (simp add: set_listeners_def)

lemma url_conn_step: "conn_url (conn (snd (conn_step C e w))) = conn_url (conn w)"
proof (cases e)
  case (Received t)
  then show ?thesis
    by (cases t) (auto simp: on_notification_def notify_listeners_eq on_subscribed_def deliver_def Let_def
        split: option.splits websocket_message.splits)
next
  case (Unsubscribe u)
  then show ?thesis
    by (auto simp: on_unsubscription_def Let_def generate_def split: option.splits)
qed (simp_all add: on_request_def Let_def)

text \<open>What the dispatcher does to the queues.\<close>

lemma dispatch_step_extends:
  "\<exists>qs sp. queued (dispatch_step E e d) = queued d @ qs \<and> spawned (dispatch_step E e d) = spawned d @ sp"
  by (cases e) (auto simp: on_upstream_state_def on_sub_request_def on_connected_def try_spawn_connections_def
      Let_def split_beta split: option.splits)

lemma dispatch_step_opens:
  "\<forall>x \<in> set (drop (length (spawned d)) (spawned (dispatch_step E e d))).
     queue_of (dispatch_step E e d) (fst x) = Some (fst (snd x))"
  by (cases e) (auto simp: on_upstream_state_def on_sub_request_def on_connected_def try_spawn_connections_def
      Let_def split_beta queue_of_def split: option.splits)

lemma queue_of_extends:
  "queue_of d q = Some u \<Longrightarrow> spawned d' = spawned d @ sp \<Longrightarrow> queue_of d' q = Some u"
  by (auto simp: queue_of_def nth_append split: if_splits)

lemma accepted_extends: "queued d' = queued d @ qs \<Longrightarrow> \<exists>xs. accepted q d' = accepted q d @ xs"
  by (simp add: accepted_def)

lemma take_extends: "n \<le> length xs \<Longrightarrow> ys = xs @ zs \<Longrightarrow> take n ys = take n xs \<and> n \<le> length ys"
  by simp

lemma start_members_ok:
  assumes "m \<in> set (start_members k ids M x)"
  shows "pm_queue m = fst x" "member_url m = fst (snd x)" "wf_conn (conn (pm_world m))"
  using assms by (auto simp: start_members_def member_url_def connection_new_def wf_conn_def split: prod.splits)

lemma inv_dispatcher_turn:
  assumes inv: "pubsub_inv S"
  shows "pubsub_inv (dispatcher_turn hs e S)"
proof -
  define d' where "d' = dispatch_step (pool_env hs S) e (ps_dispatcher S)"
  define new where "new = concat (map (start_members (length (ps_members S)) (ps_ids S) (dispatch_metrics d'))
      (drop (length (spawned (ps_dispatcher S))) (spawned d')))"
  have turn: "dispatcher_turn hs e S = S\<lparr>ps_dispatcher := d', ps_members := ps_members S @ new\<rparr>"
    by (simp add: dispatcher_turn_def d'_def new_def Let_def)
  obtain qs sp where ext: "queued d' = queued (ps_dispatcher S) @ qs" "spawned d' = spawned (ps_dispatcher S) @ sp"
    using dispatch_step_extends unfolding d'_def by blast
  have disp: "dispatch_inv d'" using inv by (simp add: pubsub_inv_def d'_def inv_dispatch_step)
  have "queue_of d' (pm_queue m) = Some (member_url m) \<and> wf_conn (conn (pm_world m))" if "m \<in> set new" for m
    using that dispatch_step_opens [of "ps_dispatcher S" "pool_env hs S" e]
    unfolding new_def d'_def by (auto simp: start_members_ok)
  then have members: "members_ok (dispatcher_turn hs e S)"
    using inv queue_of_extends [OF _ ext(2)] by (auto simp: turn members_ok_def pubsub_inv_def)
  have log: "log_ok (dispatcher_turn hs e S)"
    using inv by (auto simp: turn log_ok_def pubsub_inv_def nth_append)
  have "served q (dispatcher_turn hs e S) = served q S" for q
    using inv by (auto simp: served_def turn pubsub_inv_def log_ok_def nth_append intro!: arg_cong [where f = "map snd"] filter_cong)
  moreover obtain xs where "accepted q d' = accepted q (ps_dispatcher S) @ xs q" for q
    using accepted_extends [OF ext(1)] by metis
  ultimately have "queues_ok (dispatcher_turn hs e S)"
    using inv by (simp add: turn queues_ok_def pubsub_inv_def trans_le_add1)
  with disp members log show ?thesis by (simp add: pubsub_inv_def) (simp add: turn)
qed

lemma member_turn_frame [simp]:
  "length (ps_members (member_turn C e j S)) = length (ps_members S)"
  "queued (ps_dispatcher (member_turn C e j S)) = queued (ps_dispatcher S)"
  "ps_taken (member_turn C e j S) = ps_taken S"
  "ps_log (member_turn C e j S) = ps_log S"
  "dispatch_inv (ps_dispatcher (member_turn C e j S)) = dispatch_inv (ps_dispatcher S)"
  "queue_of (ps_dispatcher (member_turn C e j S)) q = queue_of (ps_dispatcher S) q"
  "accepted q (ps_dispatcher (member_turn C e j S)) = accepted q (ps_dispatcher S)"
  by (simp_all add: member_turn_def Let_def split_beta dispatch_inv_def queue_of_def accepted_def)

lemma member_turn_at [simp]:
  assumes "j < length (ps_members S)"
  shows "pm_queue (ps_members (member_turn C e j S) ! i) = pm_queue (ps_members S ! i)"
    and "member_url (ps_members (member_turn C e j S) ! i) = member_url (ps_members S ! i)"
  using assms
  by (cases "i = j"; simp add: member_turn_def Let_def split_beta member_url_def url_conn_step)+

lemma inv_member_turn:
  assumes inv: "pubsub_inv S" and j: "j < length (ps_members S)"
  shows "pubsub_inv (member_turn C e j S)"
proof -
  have wf: "wf_conn (conn (pm_world (ps_members S ! i)))"
      "queue_of (ps_dispatcher S) (pm_queue (ps_members S ! i)) = Some (member_url (ps_members S ! i))"
    if "i < length (ps_members S)" for i
    using inv that by (simp_all add: pubsub_inv_def members_ok_def)
  have step: "wf_conn (conn (snd (conn_step C e ((pm_world (ps_members S ! j))\<lparr>id_counter := n, conn_metrics := M\<rparr>))))"
    for n M by (rule wf_conn_step) (simp add: wf(1) [OF j])
  have "wf_conn (conn (pm_world (ps_members (member_turn C e j S) ! i)))" if "i < length (ps_members S)" for i
    using that wf(1) step j by (cases "i = j") (simp_all add: member_turn_def Let_def split_beta)
  then have "members_ok (member_turn C e j S)"
    using j wf(2) by (auto simp: members_ok_def in_set_conv_nth)
  moreover have "log_ok (member_turn C e j S)"
    using inv j by (auto simp: pubsub_inv_def log_ok_def)
  moreover have "served q (member_turn C e j S) = served q S" for q
    using j by (simp add: served_def)
  ultimately show ?thesis using inv by (simp add: pubsub_inv_def queues_ok_def)
qed

lemma inv_take_request:
  assumes inv: "pubsub_inv S" and j: "j < length (ps_members S)"
  shows "pubsub_inv (take_request C j S)"
proof (cases "length (accepted (pm_queue (ps_members S ! j)) (ps_dispatcher S)) \<le> ps_taken S (pm_queue (ps_members S ! j))")
  case False
  define q where "q = pm_queue (ps_members S ! j)"
  define s where "s = accepted q (ps_dispatcher S) ! ps_taken S q"
  let ?S = "member_turn C (Request s) j S"
  have n: "ps_taken S q < length (accepted q (ps_dispatcher S))" using False by (simp add: q_def)
  have take: "take_request C j S = ?S\<lparr>ps_taken := (ps_taken S)(q := Suc (ps_taken S q)), ps_log := ps_log S @ [(j, s)]\<rparr>"
    using False by (simp add: take_request_def q_def s_def Let_def)
  note inv' = inv_member_turn [OF inv j, of C "Request s"]
  have "s \<in> set (accepted q (ps_dispatcher S))" using n by (simp add: s_def)
  then have "(q, s) \<in> set (queued (ps_dispatcher S))" by (auto simp: accepted_def)
  then have dest: "queue_of (ps_dispatcher S) q = Some (sub_destination s)"
    using inv by (auto simp: pubsub_inv_def dispatch_inv_def)
  have "ps_members S ! j \<in> set (ps_members S)" using j by simp
  then have url: "member_url (ps_members S ! j) = sub_destination s"
    using inv dest by (auto simp: pubsub_inv_def members_ok_def q_def)
  have log: "log_ok (take_request C j S)"
    using inv' url j by (auto simp: take log_ok_def pubsub_inv_def)
  have "served p (take_request C j S) = served p S @ (if p = q then [s] else [])" for p
    using j by (simp add: take served_def q_def)
  then have "queues_ok (take_request C j S)"
    using inv n by (auto simp: take queues_ok_def pubsub_inv_def s_def take_Suc_conv_app_nth)
  with log inv' show ?thesis by (simp add: pubsub_inv_def members_ok_def) (simp add: take)
qed (simp add: take_request_def Let_def inv)

lemma inv_pubsub_step: "pubsub_inv S \<Longrightarrow> pubsub_inv (pubsub_step e S)"
  by (cases e) (auto simp: inv_dispatcher_turn inv_take_request inv_member_turn running_at_def)

definition pubsub_start :: "pubsub_system \<Rightarrow> bool" where
  "pubsub_start S \<longleftrightarrow> (\<exists>n M. S = pubsub_init n M)"

definition pubsub_transition :: "pubsub_system \<Rightarrow> pubsub_system \<Rightarrow> bool" where
  "pubsub_transition S S' \<longleftrightarrow> (\<exists>e. S' = pubsub_step e S)"

interpretation pubsub_steps: step_invariant pubsub_start pubsub_transition pubsub_inv
proof
  show "pubsub_inv S" if "pubsub_start S" for S
    using that by (auto simp: pubsub_start_def pubsub_init_def pubsub_inv_def dispatch_inv_def dispatcher_new_def
        members_ok_def log_ok_def queues_ok_def served_def accepted_def)
qed (auto simp: pubsub_transition_def inv_pubsub_step)

text \<open>C12: However the dispatcher and its connections interleave, and whichever connections fail, reconnect or
  end: the requests that the connections of a queue have taken are a prefix of the requests
  the dispatcher accepted for that queue, so each is taken at most once and in order; every
  request was taken by a connection to the destination it names; and the tables of every connection are
  consistent.\<close>

theorem requests_served_once_in_order:
  assumes "reachable pubsub_start pubsub_transition S"
  shows "(\<exists>rest. accepted q (ps_dispatcher S) = served q S @ rest)
    \<and> (\<forall>j s. (j, s) \<in> set (ps_log S) \<longrightarrow>
          j < length (ps_members S) \<and> conn_url (conn (pm_world (ps_members S ! j))) = sub_destination s)
    \<and> (\<forall>m. m \<in> set (ps_members S) \<longrightarrow> wf_conn (conn (pm_world m)))"
proof -
  have inv: "pubsub_inv S" using assms by (rule pubsub_steps.inv_reachable)
  then have "served q S = take (ps_taken S q) (accepted q (ps_dispatcher S))"
    by (simp add: pubsub_inv_def queues_ok_def)
  then have "accepted q (ps_dispatcher S) = served q S @ drop (ps_taken S q) (accepted q (ps_dispatcher S))"
    by simp
  with inv show ?thesis
    by (auto simp: pubsub_inv_def members_ok_def log_ok_def member_url_def)
qed

definition pubsub_run :: "pubsub_event list \<Rightarrow> pubsub_system \<Rightarrow> pubsub_system" where
  "pubsub_run es S = fold pubsub_step es S"

lemma pubsub_run_reachable_from:
  "reachable pubsub_start pubsub_transition S \<Longrightarrow> reachable pubsub_start pubsub_transition (pubsub_run es S)"
  unfolding pubsub_run_def
proof (erule fold_invariant)
  show "reachable pubsub_start pubsub_transition (pubsub_step e S)"
    if "reachable pubsub_start pubsub_transition S" for e S
    using that by (rule reachable_step) (auto simp: pubsub_transition_def)
qed

lemma pubsub_run_reachable: "reachable pubsub_start pubsub_transition (pubsub_run es (pubsub_init n M))"
  by (rule pubsub_run_reachable_from, rule reachable_init) (auto simp: pubsub_start_def)

text \<open>Two connections to one upstream; the second takes the request.\<close>

definition sample_waiting :: pubsub_system where
  "sample_waiting = pubsub_run
     [Dispatcher (\<lambda>_ _. True) (UpstreamState (sample_online True)), Dispatcher (\<lambda>_ _. True) (Connected 0),
      Dispatcher (\<lambda>_ _. True) (SubRequest sample_request)]
     (pubsub_init 2 metrics_new)"

definition sample_pool :: pubsub_system where
  "sample_pool = pubsub_run
     [Dispatcher (\<lambda>_ _. True) (UpstreamState (sample_online True)), Dispatcher (\<lambda>_ _. True) (Connected 0),
      Dispatcher (\<lambda>_ _. True) (SubRequest sample_request), TakeRequest sample_conn_env 1]
     (pubsub_init 2 metrics_new)"

lemmas sample_run_defs =
  pubsub_run_def pubsub_init_def dispatcher_turn_def dispatcher_new_def on_upstream_state_def sample_online_def
  on_connected_def try_spawn_connections_def on_sub_request_def sample_request_def pool_env_def has_member_def
  start_members_def accepted_def take_request_def running_at_def member_turn_def served_def upt_rec

lemma sample_waiting_facts:
  "running_at 0 sample_waiting" "pm_queue (ps_members sample_waiting ! 0) = 0"
  "accepted 0 (ps_dispatcher sample_waiting) = [sample_request]" "served 0 sample_waiting = []"
  "wire (pm_world (ps_members sample_waiting ! 0)) = []"
  by (simp_all add: sample_waiting_def sample_run_defs Let_def split_beta)

lemma sample_pool_log: "ps_log sample_pool = [(1, sample_request)]"
  by (simp add: sample_pool_def sample_run_defs Let_def split_beta)

theorem requests_served_once_in_order_witness:
  "conn_url (conn (pm_world (ps_members sample_pool ! 1))) = ''ws1''"
proof -
  have "reachable pubsub_start pubsub_transition sample_pool"
    unfolding sample_pool_def by (rule pubsub_run_reachable)
  from requests_served_once_in_order [OF this, of 0] sample_pool_log show ?thesis
    by (simp add: sample_request_def)
qed


section \<open>A working connection drains its queue\<close>

lemma take_request_healthy:
  assumes "running_at j S" and "q = pm_queue (ps_members S ! j)"
    and "ps_taken S q < length (accepted q (ps_dispatcher S))" and "\<And>t. socket_ok C t"
  shows "running_at j (take_request C j S)"
    and "pm_queue (ps_members (take_request C j S) ! j) = q"
    and "ps_taken (take_request C j S) q = Suc (ps_taken S q)"
    and "accepted q (ps_dispatcher (take_request C j S)) = accepted q (ps_dispatcher S)"
    and "wire (pm_world (ps_members (take_request C j S) ! j))
           = wire (pm_world (ps_members S ! j)) @ [sub_payload (accepted q (ps_dispatcher S) ! ps_taken S q)]"
  using assms
  by (simp_all add: running_at_def take_request_def member_turn_def Let_def split_beta on_request_def
      socket_send_def count_upstream_def accepted_def)

lemma drain_queue:
  assumes "running_at j S" and "q = pm_queue (ps_members S ! j)" and "\<And>t. socket_ok C t"
    and "ps_taken S q + n = length (accepted q (ps_dispatcher S))"
  shows "ps_taken (pubsub_run (replicate n (TakeRequest C j)) S) q = length (accepted q (ps_dispatcher S))
    \<and> accepted q (ps_dispatcher (pubsub_run (replicate n (TakeRequest C j)) S)) = accepted q (ps_dispatcher S)
    \<and> wire (pm_world (ps_members (pubsub_run (replicate n (TakeRequest C j)) S) ! j))
        = wire (pm_world (ps_members S ! j)) @ map sub_payload (drop (ps_taken S q) (accepted q (ps_dispatcher S)))"
  using assms
proof (induction n arbitrary: S)
  case (Suc n)
  let ?S = "take_request C j S"
  have lt: "ps_taken S q < length (accepted q (ps_dispatcher S))" using Suc.prems(4) by simp
  note one = take_request_healthy [OF Suc.prems(1,2) lt Suc.prems(3)]
  have run: "pubsub_run (replicate (Suc n) (TakeRequest C j)) S = pubsub_run (replicate n (TakeRequest C j)) ?S"
    using Suc.prems(1) by (simp add: pubsub_run_def)
  have "q = pm_queue (ps_members ?S ! j)" "ps_taken ?S q + n = length (accepted q (ps_dispatcher ?S))"
    using one(2-4) Suc.prems(4) by simp_all
  from Suc.IH [OF one(1) this(1) Suc.prems(3) this(2)] show ?case
    unfolding run one(3-5) using Cons_nth_drop_Suc [OF lt, symmetric] by simp
qed (simp add: pubsub_run_def)

text \<open>C13: Every accepted request can still be served as long as one connection of its upstream works: if that
  connection takes requests until none is waiting, all accepted requests of the queue have been taken,
  and the payloads of exactly the waiting ones were written to its socket, in order.\<close>

theorem working_connection_drains_queue:
  assumes "reachable pubsub_start pubsub_transition S" and "running_at j S"
    and "q = pm_queue (ps_members S ! j)" and "\<And>t. socket_ok C t"
    and "accepted q (ps_dispatcher S) = served q S @ waiting"
  shows "let S' = pubsub_run (replicate (length waiting) (TakeRequest C j)) S
         in served q S' = accepted q (ps_dispatcher S)
          \<and> wire (pm_world (ps_members S' ! j)) = wire (pm_world (ps_members S ! j)) @ map sub_payload waiting"
proof -
  let ?S = "pubsub_run (replicate (length waiting) (TakeRequest C j)) S"
  have "queues_ok S" using pubsub_steps.inv_reachable [OF assms(1)] by (simp add: pubsub_inv_def)
  then have len: "ps_taken S q = length (served q S)"
    by (simp add: queues_ok_def min_absorb2)
  then have "ps_taken S q + length waiting = length (accepted q (ps_dispatcher S))" using assms(5) by simp
  note drained = drain_queue [OF assms(2-4) this]
  have "reachable pubsub_start pubsub_transition ?S"
    using assms(1) by (rule pubsub_run_reachable_from)
  then have "queues_ok ?S" using pubsub_steps.inv_reachable by (auto simp: pubsub_inv_def)
  with drained have "served q ?S = accepted q (ps_dispatcher S)" by (simp add: queues_ok_def)
  moreover have "drop (ps_taken S q) (accepted q (ps_dispatcher S)) = waiting"
    using assms(5) len by simp
  ultimately show ?thesis using drained by (simp add: Let_def)
qed

theorem working_connection_drains_queue_witness:
  "wire (pm_world (ps_members (pubsub_run [TakeRequest sample_conn_env 0] sample_waiting) ! 0)) = [JNull]"
proof -
  have "reachable pubsub_start pubsub_transition sample_waiting"
    unfolding sample_waiting_def by (rule pubsub_run_reachable)
  from working_connection_drains_queue [OF this, of 0 0 sample_conn_env "[sample_request]"]
  show ?thesis
    using sample_waiting_facts by (simp add: Let_def sample_conn_env_def sample_request_def)
qed

end
