(* ===== verification/Startup.thy ===== *)
theory Startup
  imports Websocket Dispatch
begin

text \<open>
  \<open>src/lib.rs\<close>, \<open>src/config.rs\<close> and the method tables of \<open>src/rpc/\<close>: how the components are put together when the
  router starts.  The server library, the sync service and the parsers are arguments (\<open>startup_env\<close>).
  The dispatcher runs beside \<open>run\<close>: \<open>run\<close> takes the events the dispatcher has handled so far, and its
  outcome says whether start-up panicked, still waits for the dispatcher's signal, returned an error, or
  started the router.

  The servers hold \<open>Arc\<close>s.  \<open>process\<close> is the heap these point into, together with the statics (the metrics and
  the id counter) and the logs of what left the process; a server is a record of addresses, and a call
  reads the state it points to, runs a handler of \<open>Http\<close> or \<open>Websocket\<close> on it and writes it back.  That the
  two servers work on one cache, one routing table and one transaction cache is a theorem about the
  addresses \<open>assemble\<close> gives them.
\<close>

section \<open>Configuration\<close>

record laser_stream_config =
  api_key :: string
  endpoint :: string

record websocket_connection_config =
  ping_interval_sec :: u64
  cfg_connections_per_upstream :: u16

record routing_config =
  cfg_static_er_identity :: "string option"

record router_config =
  listen_address :: string
  base_chain_urls :: "url list"
  laser_stream :: laser_stream_config
  max_cached_delegations :: nat
  max_cached_transactions :: nat
  max_connections :: u32
  max_subscriptions_per_connection :: u32
  websocket_config :: websocket_connection_config
  routing :: routing_config
  proximity_ping_frequency_sec :: u64


section \<open>Method tables\<close>

definition ro_http_methods :: "string list" where
  "ro_http_methods =
     [''getAccountInfo'', ''getMultipleAccounts'', ''getBalance'', ''getTokenAccountBalance'', ''getIdentity'',
      ''getSignatureStatuses'', ''getTransaction'', ''getSignaturesForAddress'', ''isBlockhashValid'',
      ''getBlockhashForAccounts'', ''getFirstAvailableBlock'', ''getEpochSchedule'', ''getEpochInfo'',
      ''getRoutes'', ''getDelegationStatus'', ''getLatestBlockhash'']"

definition rw_http_methods :: "string list" where
  "rw_http_methods = [''sendTransaction'']"

definition websocket_methods :: "string list" where
  "websocket_methods =
     [''accountSubscribe'', ''accountUnsubscribe'', ''signatureSubscribe'', ''signatureUnsubscribe'']"

text \<open>\<open>RpcModule::merge\<close> of the server library joins two method tables.  It refuses a name that is already
  registered; what the code relies on is that it accepts different names and keeps all of them.\<close>

type_synonym merge_op = "string list \<Rightarrow> string list \<Rightarrow> string list option"

locale module_merge =
  fixes merge :: merge_op
  assumes merge_disjoint:
    "\<lbrakk>distinct ms; distinct ns; set ms \<inter> set ns = {}\<rbrakk>
       \<Longrightarrow> \<exists>r. merge ms ns = Some r \<and> distinct r \<and> set r = set ms \<union> set ns"


section \<open>Shared state\<close>

type_synonym addr = nat

text \<open>A \<open>DelegationsCache\<close> holds its routing table behind an \<open>Arc\<close>.\<close>

record delegations_cell =
  cell_db :: "pubkey \<rightharpoonup> delegation_entry"
  cell_capacity :: "nat \<times> nat"
  cell_fills :: fills
  cell_syncer :: "sync_request list"
  cell_routes :: addr

record process =
  p_routes :: "addr \<rightharpoonup> routing_table"
  p_delegations :: "addr \<rightharpoonup> delegations_cell"
  p_transactions :: "addr \<rightharpoonup> forwarded_transactions"
  p_blockhashes :: "addr \<rightharpoonup> hash \<rightharpoonup> rpc_client"
  p_next :: addr
  p_metrics :: metrics
  p_ids :: u64
  p_forwarded :: "(rpc_client \<times> upstream_call) list"
  p_channels :: nat
  p_unsubs :: "(channel \<times> unsubscription) list"
  p_sinks :: "sink_message list"

text \<open>The two servers as the code has them.  The sender to the dispatcher that the websocket server also
  holds is a clone of the routing table's and so is read and written with the table.\<close>

record http_refs =
  hr_delegations :: addr
  hr_routes :: addr
  hr_transactions :: addr
  hr_blockhashes :: addr

record ws_refs =
  wr_delegations :: addr
  wr_routes :: addr
  wr_transactions :: addr

definition process_new :: "metrics \<Rightarrow> u64 \<Rightarrow> process" where
  "process_new M ids =
     \<lparr>p_routes = Map.empty, p_delegations = Map.empty, p_transactions = Map.empty, p_blockhashes = Map.empty,
      p_next = 0, p_metrics = M, p_ids = ids, p_forwarded = [], p_channels = 0, p_unsubs = [], p_sinks = []\<rparr>"

text \<open>\<open>Arc::new\<close>.\<close>

definition arc_routes :: "routing_table \<Rightarrow> process \<Rightarrow> addr \<times> process" where
  "arc_routes rt P = (p_next P, P\<lparr>p_routes := (p_routes P)(p_next P \<mapsto> rt), p_next := Suc (p_next P)\<rparr>)"

definition arc_delegations :: "delegations_cache \<Rightarrow> addr \<Rightarrow> process \<Rightarrow> addr \<times> process" where
  "arc_delegations c rt P =
     (p_next P,
      P\<lparr>p_delegations := (p_delegations P)(p_next P \<mapsto>
           \<lparr>cell_db = db c, cell_capacity = db_capacity c, cell_fills = fill_table c,
            cell_syncer = syncer c, cell_routes = rt\<rparr>),
        p_next := Suc (p_next P)\<rparr>)"

definition arc_transactions :: "forwarded_transactions \<Rightarrow> process \<Rightarrow> addr \<times> process" where
  "arc_transactions T P =
     (p_next P, P\<lparr>p_transactions := (p_transactions P)(p_next P \<mapsto> T), p_next := Suc (p_next P)\<rparr>)"

definition arc_blockhashes :: "(hash \<rightharpoonup> rpc_client) \<Rightarrow> process \<Rightarrow> addr \<times> process" where
  "arc_blockhashes B P =
     (p_next P, P\<lparr>p_blockhashes := (p_blockhashes P)(p_next P \<mapsto> B), p_next := Suc (p_next P)\<rparr>)"

text \<open>Reading and writing through the cache's address follows its routing table's.  A server reads the
  table through its own address; the handlers' models take it from the cache, so a server has a state
  only when the two addresses are one.\<close>

definition read_delegations :: "addr \<Rightarrow> addr \<Rightarrow> process \<Rightarrow> delegations_cache option" where
  "read_delegations a rt_addr P =
     (case p_delegations P a of
        None \<Rightarrow> None
      | Some cell \<Rightarrow>
          if cell_routes cell \<noteq> rt_addr then None
          else map_option (\<lambda>rt. \<lparr>db = cell_db cell, db_capacity = cell_capacity cell,
                                fill_table = cell_fills cell, syncer = cell_syncer cell,
                                routes = rt, cache_metrics = p_metrics P\<rparr>)
                 (p_routes P rt_addr))"

definition write_delegations :: "addr \<Rightarrow> addr \<Rightarrow> delegations_cache \<Rightarrow> process \<Rightarrow> process" where
  "write_delegations a rt_addr c P =
     P\<lparr>p_delegations := (p_delegations P)(a \<mapsto>
         \<lparr>cell_db = db c, cell_capacity = db_capacity c, cell_fills = fill_table c,
          cell_syncer = syncer c, cell_routes = rt_addr\<rparr>),
       p_routes := (p_routes P)(rt_addr \<mapsto> routes c),
       p_metrics := cache_metrics c\<rparr>"

definition http_view :: "http_refs \<Rightarrow> process \<Rightarrow> http_server option" where
  "http_view h P =
     (case (read_delegations (hr_delegations h) (hr_routes h) P, p_transactions P (hr_transactions h),
            p_blockhashes P (hr_blockhashes h)) of
        (Some c, Some T, Some B) \<Rightarrow>
          Some \<lparr>delegations = c, transactions = T, blockhashes = B, forwarded = p_forwarded P\<rparr>
      | _ \<Rightarrow> None)"

definition http_write :: "http_refs \<Rightarrow> http_server \<Rightarrow> process \<Rightarrow> process" where
  "http_write h s P =
     (write_delegations (hr_delegations h) (hr_routes h) (delegations s) P)
       \<lparr>p_transactions := (p_transactions P)(hr_transactions h \<mapsto> transactions s),
        p_blockhashes := (p_blockhashes P)(hr_blockhashes h \<mapsto> blockhashes s),
        p_forwarded := forwarded s\<rparr>"

definition ws_view :: "ws_refs \<Rightarrow> process \<Rightarrow> ws_server option" where
  "ws_view r P =
     (case (read_delegations (wr_delegations r) (wr_routes r) P, p_transactions P (wr_transactions r)) of
        (Some c, Some T) \<Rightarrow>
          Some \<lparr>ws_delegations = c, ws_transactions = T, ws_ids = p_ids P, ws_channels = p_channels P,
                ws_unsubs = p_unsubs P, ws_sinks = p_sinks P\<rparr>
      | _ \<Rightarrow> None)"

definition ws_write :: "ws_refs \<Rightarrow> ws_server \<Rightarrow> process \<Rightarrow> process" where
  "ws_write r w P =
     (write_delegations (wr_delegations r) (wr_routes r) (ws_delegations w) P)
       \<lparr>p_transactions := (p_transactions P)(wr_transactions r \<mapsto> ws_transactions w),
        p_ids := ws_ids w, p_channels := ws_channels w, p_unsubs := ws_unsubs w, p_sinks := ws_sinks w\<rparr>"

text \<open>A call of either server: a handler without its answer.\<close>

datatype server_call = HttpCall "http_server \<Rightarrow> http_server" | WsCall "ws_server \<Rightarrow> ws_server"

fun serve :: "http_refs \<Rightarrow> ws_refs \<Rightarrow> server_call \<Rightarrow> process \<Rightarrow> process" where
  "serve h r (HttpCall f) P = (case http_view h P of None \<Rightarrow> P | Some s \<Rightarrow> http_write h (f s) P)"
| "serve h r (WsCall f) P = (case ws_view r P of None \<Rightarrow> P | Some w \<Rightarrow> ws_write r (f w) P)"


section \<open>Start-up\<close>

record startup_env =
  su_routes :: route_env
  su_parse_pubkey :: "string \<Rightarrow> pubkey answer"
  su_bind :: "router_config \<Rightarrow> (string, unit) result"
  su_program_accounts :: "rpc_client \<Rightarrow> (string, (pubkey \<times> account) list) result"
  su_sync_starts :: "laser_stream_config \<Rightarrow> bool"
  su_merge :: merge_op
  su_ids :: u64

record router =
  router_process :: process
  router_http :: http_refs
  router_ws :: ws_refs
  router_dispatcher :: dispatcher
  router_methods :: "string list"

definition static_identity :: "startup_env \<Rightarrow> router_config \<Rightarrow> (router_error, pubkey option) result" where
  "static_identity E cfg =
     (case cfg_static_er_identity (routing cfg) of
        None \<Rightarrow> Inr None
      | Some t \<Rightarrow> map_sum decode_error Some (su_parse_pubkey E t))"

text \<open>\<open>clone\<close> of an \<open>Arc\<close> is the same address.\<close>

definition assemble :: "merge_op \<Rightarrow> u64 \<Rightarrow> router_config \<Rightarrow> routing_table \<Rightarrow> dispatcher \<Rightarrow> router option" where
  "assemble merge ids cfg rt d =
     (let M = dispatch_metrics d;
          (routes', P1) = arc_routes rt (process_new M ids);
          (delegations', P2) = arc_delegations (delegations_new rt (max_cached_delegations cfg) M) routes' P1;
          (transactions', P3) =
            arc_transactions (forwarded_transactions_new (max_cached_transactions cfg)) P2;
          (blockhashes', P4) = arc_blockhashes Map.empty P3;
          handler = \<lparr>hr_delegations = delegations', hr_routes = routes', hr_transactions = transactions',
                     hr_blockhashes = blockhashes'\<rparr>;
          ws = \<lparr>wr_delegations = delegations', wr_routes = routes', wr_transactions = transactions'\<rparr>
      in case Option.bind (merge ro_http_methods rw_http_methods)
                (\<lambda>ms. merge ms websocket_methods) of
           None \<Rightarrow> None
         | Some methods \<Rightarrow>
             (let M' = metrics_init methods M
              in Some \<lparr>router_process = P4\<lparr>p_metrics := M'\<rparr>, router_http = handler, router_ws = ws,
                       router_dispatcher = d\<lparr>dispatch_metrics := M'\<rparr>,
                       router_methods = methods\<rparr>))"

datatype startup =
    Panicked
  | Waiting
  | Failed router_error
  | Started router

definition run :: "startup_env \<Rightarrow> (dispatch_env \<times> dispatch_event) list \<Rightarrow> router_config \<Rightarrow> startup" where
  "run E es cfg =
     (case static_identity E cfg of
        Inl e \<Rightarrow> Failed e
      | Inr sid \<Rightarrow>
          (case su_bind E cfg of
             Inl e \<Rightarrow> Failed (Io e)
           | Inr _ \<Rightarrow>
               (let d = dispatch_run es
                          (dispatcher_new (cfg_connections_per_upstream (websocket_config cfg)) True metrics_new)
                in case routing_table_new (su_routes E) (su_program_accounts E) (base_chain_urls cfg)
                          (proximity_ping_frequency_sec cfg) sid of
                     None \<Rightarrow> Panicked
                   | Some (Inl e) \<Rightarrow> Failed e
                   | Some (Inr rt) \<Rightarrow>
                       if ready_notified d = 0 then Waiting
                       else if \<not> su_sync_starts E (laser_stream cfg) then Panicked
                       else (case assemble (su_merge E) (su_ids E) cfg rt d of None \<Rightarrow> Panicked | Some r \<Rightarrow> Started r))))"


section \<open>What a started router looks like\<close>

lemma methods_distinct:
  "distinct ro_http_methods" "distinct rw_http_methods" "distinct websocket_methods"
  "set ro_http_methods \<inter> set rw_http_methods = {}"
  "(set ro_http_methods \<union> set rw_http_methods) \<inter> set websocket_methods = {}"
  by (simp_all add: ro_http_methods_def rw_http_methods_def websocket_methods_def)

definition all_methods :: "string set" where
  "all_methods = set ro_http_methods \<union> set rw_http_methods \<union> set websocket_methods"

context module_merge
begin

lemma merged_methods:
  obtains r where "Option.bind (merge ro_http_methods rw_http_methods) (\<lambda>ms. merge ms websocket_methods) = Some r"
    and "distinct r" and "set r = all_methods"
proof -
  obtain ms where ms: "merge ro_http_methods rw_http_methods = Some ms" "distinct ms"
      "set ms = set ro_http_methods \<union> set rw_http_methods"
    using merge_disjoint [OF methods_distinct(1,2,4)] by blast
  with merge_disjoint [OF ms(2) methods_distinct(3)] methods_distinct(5) obtain r where
    "merge ms websocket_methods = Some r" "distinct r" "set r = set ms \<union> set websocket_methods"
    by auto
  with ms that show thesis by (simp add: all_methods_def)
qed

lemma assemble_never_fails: "\<exists>r. assemble merge ids cfg rt d = Some r"
proof -
  obtain ms where "Option.bind (merge ro_http_methods rw_http_methods) (\<lambda>ms. merge ms websocket_methods) = Some ms"
    using merged_methods by blast
  then show ?thesis by (simp add: assemble_def Let_def split_beta)
qed

lemma assembled:
  assumes "assemble merge ids cfg rt d = Some r"
  shows "distinct (router_methods r)" and "set (router_methods r) = all_methods"
    and "p_metrics (router_process r) = metrics_init (router_methods r) (dispatch_metrics d)"
    and "ready_notified (router_dispatcher r) = ready_notified d"
    and "http_view (router_http r) (router_process r) =
      Some \<lparr>delegations = delegations_new rt (max_cached_delegations cfg) (p_metrics (router_process r)),
            transactions = forwarded_transactions_new (max_cached_transactions cfg),
            blockhashes = Map.empty, forwarded = []\<rparr>"
proof -
  obtain ms where ms: "Option.bind (merge ro_http_methods rw_http_methods) (\<lambda>ms. merge ms websocket_methods) = Some ms"
      "distinct ms" "set ms = all_methods"
    using merged_methods by blast
  note r = assms [unfolded assemble_def Let_def split_beta ms(1) option.case option.inject, symmetric]
  show "distinct (router_methods r)" and "set (router_methods r) = all_methods"
    using ms(2,3) by (simp_all add: r)
  show "p_metrics (router_process r) = metrics_init (router_methods r) (dispatch_metrics d)"
    and "ready_notified (router_dispatcher r) = ready_notified d"
    by (simp_all add: r)
  show "http_view (router_http r) (router_process r) =
      Some \<lparr>delegations = delegations_new rt (max_cached_delegations cfg) (p_metrics (router_process r)),
            transactions = forwarded_transactions_new (max_cached_transactions cfg),
            blockhashes = Map.empty, forwarded = []\<rparr>"
    by (simp add: r http_view_def read_delegations_def arc_routes_def arc_delegations_def arc_transactions_def
        arc_blockhashes_def process_new_def delegations_new_def Let_def)
qed

end

text \<open>Joining the names in order, unless one is registered twice.\<close>

definition append_methods :: merge_op where
  "append_methods ms ns = (if set ms \<inter> set ns = {} then Some (ms @ ns) else None)"

interpretation appending: module_merge append_methods
  by unfold_locales (simp add: append_methods_def)

lemma run_started:
  assumes "run E es cfg = Started r"
  obtains sid rt where "static_identity E cfg = Inr sid"
    and "routing_table_new (su_routes E) (su_program_accounts E) (base_chain_urls cfg)
           (proximity_ping_frequency_sec cfg) sid = Some (Inr rt)"
    and "assemble (su_merge E) (su_ids E) cfg rt (dispatch_run es
           (dispatcher_new (cfg_connections_per_upstream (websocket_config cfg)) True metrics_new)) = Some r"
    and "ready_notified (dispatch_run es
           (dispatcher_new (cfg_connections_per_upstream (websocket_config cfg)) True metrics_new)) \<noteq> 0"
  using assms by (auto simp: run_def Let_def split: sum.splits option.splits if_splits)

lemma spawn_connections_metrics:
  "m_requests (snd (spawn_connections ok is (n, M))) = m_requests M"
  "m_methods (snd (spawn_connections ok is (n, M))) = m_methods M"
  by (induction "is" arbitrary: n M) (simp_all add: metrics_error_def)

lemma dispatch_step_metrics:
  "m_requests (dispatch_metrics (dispatch_step E e d)) = m_requests (dispatch_metrics d)"
  "m_methods (dispatch_metrics (dispatch_step E e d)) = m_methods (dispatch_metrics d)"
  by (cases e; simp add: on_upstream_state_def on_sub_request_def on_connected_def try_spawn_connections_def
      Let_def split_beta spawn_connections_metrics split: option.splits)+

lemma dispatch_run_metrics:
  "m_requests (dispatch_metrics (dispatch_run es d)) = m_requests (dispatch_metrics d)"
  "m_methods (dispatch_metrics (dispatch_run es d)) = m_methods (dispatch_metrics d)"
  by (induction es arbitrary: d) (simp_all add: dispatch_step_metrics split_paired_all)

definition sample_startup :: startup_env where
  "sample_startup =
     \<lparr>su_routes = sample_env, su_parse_pubkey = (\<lambda>_. Inr (Pubkey [9])), su_bind = (\<lambda>_. Inr ()),
      su_program_accounts = (\<lambda>_. Inr [(Pubkey [4], \<lparr>account_lamports = 1, account_data = [9, 0]\<rparr>)]),
      su_sync_starts = (\<lambda>_. True), su_merge = append_methods, su_ids = 3\<rparr>"

definition sample_config :: router_config where
  "sample_config =
     \<lparr>listen_address = ''localhost:8899'', base_chain_urls = [''x'', ''y''],
      laser_stream = \<lparr>api_key = ''key'', endpoint = ''laser''\<rparr>,
      max_cached_delegations = 100, max_cached_transactions = 100, max_connections = 10,
      max_subscriptions_per_connection = 10,
      websocket_config = \<lparr>ping_interval_sec = 30, cfg_connections_per_upstream = 2\<rparr>,
      routing = \<lparr>cfg_static_er_identity = Some ''er''\<rparr>, proximity_ping_frequency_sec = 30\<rparr>"

text \<open>The dispatcher handles the three announcements, then the connections complete.\<close>

definition announcements :: "routing_table \<Rightarrow> (dispatch_env \<times> dispatch_event) list" where
  "announcements rt = map (\<lambda>st. (sample_dispatch_env, UpstreamState st)) (upstream_state_tx rt)"

lemma announced_announcements: "announced (announcements rt) = upstream_state_tx rt"
proof -
  have "announced (map (\<lambda>st. (D, UpstreamState st)) sts) = sts" for D sts
    by (induction sts) simp_all
  then show ?thesis by (simp add: announcements_def)
qed

lemma sample_static_identity: "static_identity sample_startup sample_config = Inr (Some (Pubkey [9]))"
  by (simp add: static_identity_def sample_startup_def sample_config_def)

lemma sample_table_built:
  obtains rt where "routing_table_new (su_routes sample_startup) (su_program_accounts sample_startup)
     (base_chain_urls sample_config) (proximity_ping_frequency_sec sample_config) (Some (Pubkey [9]))
       = Some (Inr rt)"
proof -
  have "\<exists>rt. routing_table_new (su_routes sample_startup) (su_program_accounts sample_startup)
     (base_chain_urls sample_config) (proximity_ping_frequency_sec sample_config) (Some (Pubkey [9]))
       = Some (Inr rt)"
    by (simp add: sample_startup_def sample_config_def routing_table_new_def sample_env_def new_from_url_def
        base_chain_def Let_def insert_entry_def new_from_er_record_def inherit_proximity_def send_state_def
        append_if_absent_def)
  with that show thesis by blast
qed

lemma sample_router_started:
  obtains r where "run sample_startup [(sample_dispatch_env, UpstreamState (sample_online True)),
         (sample_dispatch_env, Connected 0)] sample_config = Started r"
proof -
  let ?es = "[(sample_dispatch_env, UpstreamState (sample_online True)), (sample_dispatch_env, Connected 0)]"
  obtain rt where rt: "routing_table_new (su_routes sample_startup) (su_program_accounts sample_startup)
       (base_chain_urls sample_config) (proximity_ping_frequency_sec sample_config) (Some (Pubkey [9]))
         = Some (Inr rt)"
    using sample_table_built by blast
  have "ready_notified (dispatch_run ?es (dispatcher_new n True metrics_new)) = 1" for n
    by (simp add: dispatcher_new_def on_upstream_state_def on_connected_def try_spawn_connections_def
        sample_online_def Let_def split_beta)
  moreover have "su_bind sample_startup sample_config = Inr ()"
    "su_sync_starts sample_startup (laser_stream sample_config)"
    and merge: "su_merge sample_startup = append_methods"
    by (simp_all add: sample_startup_def)
  ultimately have "\<exists>r. run sample_startup ?es sample_config = Started r"
    using rt appending.assemble_never_fails [of "su_ids sample_startup" sample_config rt "dispatch_run ?es (dispatcher_new
        (cfg_connections_per_upstream (websocket_config sample_config)) True metrics_new)"]
    by (auto simp: run_def sample_static_identity merge simp del: dispatch_run_simps)
  with that show thesis by blast
qed

text \<open>C23: A started router serves its methods under pairwise different names, so that merging the method
  tables cannot fail, and has a request series at zero for each of them and for unknown calls, and no
  other.  Its HTTP server has a state to work on, whose cache of delegations is empty; there is an
  endpoint, the routing table is well formed, knows the statically configured node, if any, and forgets a
  ping after three ping periods (or the largest 64-bit number of seconds, if three periods are more);
  and the dispatcher's start-up signal was given exactly once.\<close>

theorem started_router_is_consistent:
  assumes "scc_insert (insert_route (su_routes E))" and "scc_insert (insert_pda (su_routes E))"
    and "module_merge (su_merge E)" and "run E es cfg = Started r"
  shows "distinct (router_methods r) \<and> set (router_methods r) = all_methods
    \<and> m_methods (p_metrics (router_process r)) = Some (router_methods r)
    \<and> dom (m_requests (p_metrics (router_process r))) = insert ''unknown'' (set (router_methods r))
    \<and> (\<forall>m. value_of 0 (m_requests (p_metrics (router_process r))) m = 0)
    \<and> base_chain_urls cfg \<noteq> [] \<and> ready_notified (router_dispatcher r) = 1
    \<and> (\<exists>s. http_view (router_http r) (router_process r) = Some s
        \<and> db (delegations s) = Map.empty \<and> wf_table (table s)
        \<and> proximity_stale_after (table s)
            = min (unat (proximity_ping_frequency_sec cfg) * 3) (2 ^ 64 - 1) * 1000000
        \<and> (\<exists>sid. static_identity E cfg = Inr sid
              \<and> (sid = None \<or> ephemeral_client (the sid) (table s) \<noteq> None)))"
proof -
  let ?d = "dispatch_run es
      (dispatcher_new (cfg_connections_per_upstream (websocket_config cfg)) True metrics_new)"
  obtain sid rt where sid: "static_identity E cfg = Inr sid"
    and new: "routing_table_new (su_routes E) (su_program_accounts E) (base_chain_urls cfg)
           (proximity_ping_frequency_sec cfg) sid = Some (Inr rt)"
    and r: "assemble (su_merge E) (su_ids E) cfg rt ?d = Some r" and rdy: "ready_notified ?d \<noteq> 0"
    using run_started [OF assms(4)] .
  let ?s = "\<lparr>delegations = delegations_new rt (max_cached_delegations cfg) (p_metrics (router_process r)),
             transactions = forwarded_transactions_new (max_cached_transactions cfg),
             blockhashes = Map.empty, forwarded = []\<rparr>"
  have s: "table ?s = rt" "db (delegations ?s) = Map.empty"
    by (simp_all add: table_def delegations_new_def Let_def)
  note facts = routing_table_new_facts [OF assms(1,2) new]
  have "reachable dispatch_init dispatch_transition ?d"
    by (intro dispatch_run_reachable reachable_init) (auto simp: dispatch_init_def)
  then have once: "ready_notified ?d = 1"
    using dispatcher_system.inv_reachable [of ?d] rdy by (auto simp: dispatch_inv_def split: if_splits)
  have M: "m_requests (dispatch_metrics ?d) = with_label 0 ''unknown'' (counter [])"
    "m_methods (dispatch_metrics ?d) = None"
    by (simp_all add: dispatch_run_metrics dispatcher_new_def metrics_new_def)
  have "value_of 0 (counter []) m = 0" for m by (simp add: counter_def value_of_def)
  with M have series:
    "dom (m_requests (metrics_init ms (dispatch_metrics ?d))) = insert ''unknown'' (set ms)"
    "value_of 0 (m_requests (metrics_init ms (dispatch_metrics ?d))) m = 0"
    "m_methods (metrics_init ms (dispatch_metrics ?d)) = Some ms" for ms m
    by (simp_all add: metrics_init_def)
  have "wf_table rt" and "proximity_stale_after rt
      = min (unat (proximity_ping_frequency_sec cfg) * 3) (2 ^ 64 - 1) * 1000000"
    and "sid = None \<or> ephemeral_client (the sid) rt \<noteq> None" and "base_chain_urls cfg \<noteq> []"
    using facts by (auto intro: ccontr)
  then have state: "\<exists>s. http_view (router_http r) (router_process r) = Some s
        \<and> db (delegations s) = Map.empty \<and> wf_table (table s)
        \<and> proximity_stale_after (table s)
            = min (unat (proximity_ping_frequency_sec cfg) * 3) (2 ^ 64 - 1) * 1000000
        \<and> (\<exists>sid. static_identity E cfg = Inr sid
              \<and> (sid = None \<or> ephemeral_client (the sid) (table s) \<noteq> None))"
    using sid s module_merge.assembled(5) [OF assms(3) r] by (intro exI [of _ ?s]) simp
  show ?thesis
    using module_merge.assembled(1-4) [OF assms(3) r] once \<open>base_chain_urls cfg \<noteq> []\<close> state
    by (simp only: series) simp
qed

theorem started_router_is_consistent_witness:
  "\<exists>r. run sample_startup [(sample_dispatch_env, UpstreamState (sample_online True)),
         (sample_dispatch_env, Connected 0)] sample_config = Started r
     \<and> distinct (router_methods r)
     \<and> (\<exists>s. http_view (router_http r) (router_process r) = Some s \<and> wf_table (table s))"
proof -
  obtain r where r: "run sample_startup [(sample_dispatch_env, UpstreamState (sample_online True)),
         (sample_dispatch_env, Connected 0)] sample_config = Started r"
    by (rule sample_router_started)
  have merge: "su_merge sample_startup = append_methods" by (simp add: sample_startup_def)
  have "scc_insert (insert_route (su_routes sample_startup))" "scc_insert (insert_pda (su_routes sample_startup))"
    by (simp_all add: sample_startup_def sample_env_def alist_map.scc_insert_axioms)
  moreover have "module_merge (su_merge sample_startup)" unfolding merge by (rule appending.module_merge_axioms)
  ultimately have "distinct (router_methods r)"
    "\<exists>s. http_view (router_http r) (router_process r) = Some s \<and> wf_table (table s)"
    using started_router_is_consistent [OF _ _ _ r] by metis+
  with r show ?thesis by blast
qed

section \<open>The servers share their state\<close>

text \<open>Both servers hold the same three addresses, the cache's table is theirs, and all are allocated.\<close>

definition linked :: "http_refs \<Rightarrow> ws_refs \<Rightarrow> process \<Rightarrow> bool" where
  "linked h r P \<longleftrightarrow> wr_delegations r = hr_delegations h \<and> wr_routes r = hr_routes h
     \<and> wr_transactions r = hr_transactions h
     \<and> http_view h P \<noteq> None"

lemma linked_views:
  assumes "linked h r P"
  obtains s where "http_view h P = Some s"
    and "ws_view r P = Some \<lparr>ws_delegations = delegations s, ws_transactions = transactions s,
           ws_ids = p_ids P, ws_channels = p_channels P, ws_unsubs = p_unsubs P, ws_sinks = p_sinks P\<rparr>"
proof -
  obtain s where s: "http_view h P = Some s" using assms by (auto simp: linked_def)
  with assms have "ws_view r P = Some \<lparr>ws_delegations = delegations s, ws_transactions = transactions s,
           ws_ids = p_ids P, ws_channels = p_channels P, ws_unsubs = p_unsubs P, ws_sinks = p_sinks P\<rparr>"
    by (auto simp: linked_def http_view_def ws_view_def split: option.splits)
  with s that show thesis by blast
qed

lemma read_write_delegations [simp]:
  "read_delegations a rt_addr (write_delegations a rt_addr c P) = Some c"
  by (simp add: read_delegations_def write_delegations_def)

lemma read_delegations_frame [simp]:
  "read_delegations a rt_addr (P\<lparr>p_transactions := T\<rparr>) = read_delegations a rt_addr P"
  "read_delegations a rt_addr (P\<lparr>p_blockhashes := B\<rparr>) = read_delegations a rt_addr P"
  "read_delegations a rt_addr (P\<lparr>p_forwarded := l\<rparr>) = read_delegations a rt_addr P"
  "read_delegations a rt_addr (P\<lparr>p_ids := i\<rparr>) = read_delegations a rt_addr P"
  "read_delegations a rt_addr (P\<lparr>p_channels := n\<rparr>) = read_delegations a rt_addr P"
  "read_delegations a rt_addr (P\<lparr>p_unsubs := us\<rparr>) = read_delegations a rt_addr P"
  "read_delegations a rt_addr (P\<lparr>p_sinks := ms\<rparr>) = read_delegations a rt_addr P"
  by (simp_all add: read_delegations_def split: option.split)

lemma write_delegations_frame [simp]:
  "p_transactions (write_delegations a rt_addr c P) = p_transactions P"
  "p_blockhashes (write_delegations a rt_addr c P) = p_blockhashes P"
  "p_ids (write_delegations a rt_addr c P) = p_ids P"
  "p_channels (write_delegations a rt_addr c P) = p_channels P"
  "p_unsubs (write_delegations a rt_addr c P) = p_unsubs P"
  "p_sinks (write_delegations a rt_addr c P) = p_sinks P"
  "p_forwarded (write_delegations a rt_addr c P) = p_forwarded P"
  by (simp_all add: write_delegations_def)

lemma http_view_write [simp]: "http_view h (http_write h s P) = Some s"
  by (simp add: http_view_def http_write_def)

lemma serve_http:
  assumes "linked h r P" and "http_view h P = Some s" and "ws_view r P = Some w"
  shows "http_view h (serve h r (HttpCall f) P) = Some (f s)"
    and "ws_view r (serve h r (HttpCall f) P)
      = Some (w\<lparr>ws_delegations := delegations (f s), ws_transactions := transactions (f s)\<rparr>)"
proof -
  show "http_view h (serve h r (HttpCall f) P) = Some (f s)" using assms(2) by simp
  have "w = \<lparr>ws_delegations = delegations s, ws_transactions = transactions s,
           ws_ids = p_ids P, ws_channels = p_channels P, ws_unsubs = p_unsubs P, ws_sinks = p_sinks P\<rparr>"
    using linked_views [OF assms(1)] assms(2,3) by (metis option.inject)
  with assms(1,2) show "ws_view r (serve h r (HttpCall f) P)
      = Some (w\<lparr>ws_delegations := delegations (f s), ws_transactions := transactions (f s)\<rparr>)"
    by (simp add: ws_view_def http_write_def linked_def)
qed

lemma serve_ws:
  assumes "linked h r P" and "http_view h P = Some s" and "ws_view r P = Some w"
  shows "ws_view r (serve h r (WsCall g) P) = Some (g w)"
    and "http_view h (serve h r (WsCall g) P)
      = Some (s\<lparr>delegations := ws_delegations (g w), transactions := ws_transactions (g w)\<rparr>)"
proof -
  show "ws_view r (serve h r (WsCall g) P) = Some (g w)"
    using assms(3) by (simp add: ws_view_def ws_write_def)
  from assms(2) obtain B where "p_blockhashes P (hr_blockhashes h) = Some B" "blockhashes s = B"
    "forwarded s = p_forwarded P"
    by (auto simp: http_view_def split: option.splits)
  with assms(1,3) show "http_view h (serve h r (WsCall g) P)
      = Some (s\<lparr>delegations := ws_delegations (g w), transactions := ws_transactions (g w)\<rparr>)"
    by (simp add: http_view_def ws_write_def linked_def)
qed

lemma linked_serve: "linked h r P \<Longrightarrow> linked h r (serve h r call P)"
proof -
  assume linked: "linked h r P"
  then obtain s w where "http_view h P = Some s" "ws_view r P = Some w" by (rule linked_views)
  with serve_http [OF linked this] serve_ws [OF linked this] linked show ?thesis
    by (cases call) (simp_all add: linked_def del: serve.simps)
qed

lemma linked_assemble:
  assumes "assemble merge ids cfg rt d = Some r"
  shows "linked (router_http r) (router_ws r) (router_process r)"
  using assms
  by (auto simp: assemble_def linked_def http_view_def read_delegations_def arc_routes_def arc_delegations_def
      arc_transactions_def arc_blockhashes_def process_new_def Let_def split: option.splits)

text \<open>C24: The two servers of a started router work on one state.  After any calls of either server, both
  read the same delegations cache, with its routing table and metrics, and the same transaction cache; and
  what the next call of one server writes there, whatever handler it runs, is what the other reads, while
  the rest of the other's state is untouched.\<close>

theorem servers_share_state:
  assumes "run E es cfg = Started r"
  shows "\<exists>s w. (case fold (serve (router_http r) (router_ws r)) calls (router_process r) of P \<Rightarrow>
      http_view (router_http r) P = Some s \<and> ws_view (router_ws r) P = Some w
      \<and> ws_delegations w = delegations s \<and> ws_transactions w = transactions s
      \<and> (\<forall>f. http_view (router_http r) (serve (router_http r) (router_ws r) (HttpCall f) P) = Some (f s)
           \<and> ws_view (router_ws r) (serve (router_http r) (router_ws r) (HttpCall f) P)
               = Some (w\<lparr>ws_delegations := delegations (f s), ws_transactions := transactions (f s)\<rparr>))
      \<and> (\<forall>g. ws_view (router_ws r) (serve (router_http r) (router_ws r) (WsCall g) P) = Some (g w)
           \<and> http_view (router_http r) (serve (router_http r) (router_ws r) (WsCall g) P)
               = Some (s\<lparr>delegations := ws_delegations (g w), transactions := ws_transactions (g w)\<rparr>)))"
proof -
  let ?P = "fold (serve (router_http r) (router_ws r)) calls (router_process r)"
  have "linked (router_http r) (router_ws r) (router_process r)"
    using run_started [OF assms] linked_assemble by metis
  then have linked: "linked (router_http r) (router_ws r) ?P"
    by (rule fold_invariant) (rule linked_serve)
  then obtain s where s: "http_view (router_http r) ?P = Some s"
    and w: "ws_view (router_ws r) ?P = Some \<lparr>ws_delegations = delegations s, ws_transactions = transactions s,
           ws_ids = p_ids ?P, ws_channels = p_channels ?P, ws_unsubs = p_unsubs ?P, ws_sinks = p_sinks ?P\<rparr>"
    by (rule linked_views)
  from s w serve_http [OF linked s w] serve_ws [OF linked s w] show ?thesis
    by (intro exI) (auto simp del: serve.simps)
qed

theorem servers_share_state_witness:
  "\<exists>r w. run sample_startup [(sample_dispatch_env, UpstreamState (sample_online True)),
         (sample_dispatch_env, Connected 0)] sample_config = Started r
     \<and> ws_view (router_ws r) (serve (router_http r) (router_ws r)
          (HttpCall (\<lambda>s. s\<lparr>transactions := track (\<lambda>k v m. m(k \<mapsto> v)) (Signature [9])
             \<lparr>handle_rpc = metrics_client ''er1'' ''er'', handle_ws = ''er1''\<rparr> (transactions s)\<rparr>))
          (router_process r)) = Some w
     \<and> get_transaction (Signature [9]) (ws_transactions w)
         = Some \<lparr>handle_rpc = metrics_client ''er1'' ''er'', handle_ws = ''er1''\<rparr>"
proof -
  obtain r where r: "run sample_startup [(sample_dispatch_env, UpstreamState (sample_online True)),
         (sample_dispatch_env, Connected 0)] sample_config = Started r"
    by (rule sample_router_started)
  with servers_share_state [OF r, of "[]"] show ?thesis
    by (fastforce simp: get_transaction_def track_def simp del: serve.simps)
qed


lemma sample_run_finishes:
  obtains rt Es where
    "routing_table_new (su_routes sample_startup) (su_program_accounts sample_startup)
       (base_chain_urls sample_config) (proximity_ping_frequency_sec sample_config) (Some (Pubkey [9]))
         = Some (Inr rt)"
    and "length Es = length (connecting (dispatch_run (announcements rt)
       (dispatcher_new (cfg_connections_per_upstream (websocket_config sample_config)) True metrics_new)))"
  using sample_table_built Ex_list_of_length by metis

text \<open>C6: Start-up completes: when the static identity, if configured, parses, the address can be bound, the
  routing table can be built and the sync service starts, then in whatever order the dispatcher
  handles the upstreams announced to it, the router is started as soon as the connection attempts
  that are open have come to an end, whether or not they succeeded.\<close>

theorem router_starts:
  assumes "static_identity E cfg = Inr sid" and "su_bind E cfg = Inr ()"
    and "routing_table_new (su_routes E) (su_program_accounts E) (base_chain_urls cfg)
           (proximity_ping_frequency_sec cfg) sid = Some (Inr rt)"
    and "su_sync_starts E (laser_stream cfg)"
    and "announced es = upstream_state_tx rt"
    and "length Es = length (connecting (dispatch_run es
           (dispatcher_new (cfg_connections_per_upstream (websocket_config cfg)) True metrics_new)))"
    and "module_merge (su_merge E)"
  shows "\<exists>r. run E (es @ map (\<lambda>D. (D, Connected 0)) Es) cfg = Started r
    \<and> ready_notified (router_dispatcher r) = 1"
proof -
  obtain st sts where st: "upstream_state_tx rt = st # sts" "is_online st"
    using routing_table_new_announces [OF assms(3)] .
  let ?d = "dispatch_run (es @ map (\<lambda>D. (D, Connected 0)) Es)
      (dispatcher_new (cfg_connections_per_upstream (websocket_config cfg)) True metrics_new)"
  have rdy: "ready_notified ?d = 1"
    by (rule signal_given [OF _ st(2) assms(6)]) (simp add: assms(5) st(1))
  obtain r where r: "assemble (su_merge E) (su_ids E) cfg rt ?d = Some r"
    using module_merge.assemble_never_fails [OF assms(7)] by blast
  with rdy assms(1-4) module_merge.assembled(4) [OF assms(7) r] show ?thesis by (auto simp: run_def simp del: dispatch_run_simps)
qed

theorem router_starts_witness:
  "\<exists>es r. run sample_startup es sample_config = Started r \<and> ready_notified (router_dispatcher r) = 1"
proof -
  obtain rt and Es :: "dispatch_env list" where
    rt: "routing_table_new (su_routes sample_startup) (su_program_accounts sample_startup)
       (base_chain_urls sample_config) (proximity_ping_frequency_sec sample_config) (Some (Pubkey [9]))
         = Some (Inr rt)"
    and Es: "length Es = length (connecting (dispatch_run (announcements rt)
       (dispatcher_new (cfg_connections_per_upstream (websocket_config sample_config)) True metrics_new)))"
    using sample_run_finishes by blast
  show ?thesis
    using router_starts [OF sample_static_identity _ rt _ announced_announcements Es]
      appending.module_merge_axioms by (auto simp: sample_startup_def)
qed

end
