(* ===== verification/Spec2Isabelle.thy ===== *)
theory Spec2Isabelle
  imports Delegation_Tasks Http_Routing Websocket Pubsub_System Startup
begin

text \<open>
  The router (\<open>src/\<close>) is a proxy for Solana JSON-RPC: it forwards every call to the base chain or to the
  ephemeral rollup (ER) node to which the accounts of the call are delegated, and keeps client
  subscriptions attached to the upstream that currently owns the account.

  \<^bold>\<open>Parts and how they interact.\<close>  \<open>lib.rs\<close> starts a dispatcher task, builds the routing table, the
  delegations cache and the transaction cache, and serves two method tables over them.  An HTTP handler
  asks the delegations cache who owns an account, the routing table for the client of that owner, and the
  transaction cache where a transaction went.  The delegations cache asks a sync service for updates and
  the base chain for the current record.  A websocket handler does the same and then sends a subscription
  request to the dispatcher, which hands it to one of the connections of the upstream; the connection
  sends it on and fans the notifications out to the handlers' channels.

  \<^bold>\<open>Theories and sources.\<close>
  \<^item> \<open>Prelude\<close>: result types, list and map lemmas, reachable states and invariants of a step relation.
  \<^item> \<open>Types\<close> (\<open>types.rs\<close>): identifiers from the shared wrapping 64-bit counter, response records, the
    byte parser of delegation records.
  \<^item> \<open>Errors\<close> (\<open>error.rs\<close>), \<open>Metrics\<close> (\<open>metrics.rs\<close>), \<open>Accounts\<close> (\<open>accounts.rs\<close>), \<open>Transactions\<close>
    (\<open>cache/transactions.rs\<close>).
  \<^item> \<open>Pubsub_Types\<close> (\<open>pubsub/subscription.rs\<close>, \<open>pubsub/notification.rs\<close>, \<open>pubsub/mod.rs\<close>): requests,
    incoming messages and their classification.
  \<^item> \<open>Routes\<close> (\<open>cache/routes.rs\<close>): the table of ER nodes and base chain endpoints, its constructor,
    lookups, and the updater as one step per event of its \<open>select!\<close> loop.
  \<^item> \<open>Delegations\<close> (\<open>cache/delegations.rs\<close>): the cache with every operation run without interruption;
    \<open>Delegation_Tasks\<close>: the same \<open>get_record\<close> cut at its await points, as a step relation over any
    number of callers, cancellations and stream messages.
  \<^item> \<open>Http\<close> (\<open>server/http.rs\<close>, \<open>rpc/http.rs\<close>): every handler as a function of the server state that
    records the calls it sends upstream; \<open>Http_Routing\<close>: the properties of the handlers.
  \<^item> \<open>Connection\<close> (\<open>pubsub/connection.rs\<close>): one websocket connection with its request, subscription and
    listener tables, its event loop and its reconnection.
  \<^item> \<open>Dispatch\<close> (\<open>pubsub/dispatch.rs\<close>): the dispatcher and its event loop.
  \<^item> \<open>Pubsub_System\<close>: the dispatcher and all its connections as one transition system.
  \<^item> \<open>Websocket\<close> (\<open>server/websocket.rs\<close>): the two subscription handlers and the tasks they spawn, as one
    system of tasks that hold metric guards.
  \<^item> \<open>Startup\<close> (\<open>lib.rs\<close>, \<open>config.rs\<close>, the method tables of \<open>rpc/\<close>): putting the parts together.  The two
    servers are records of addresses into a heap (\<open>process\<close>), as their \<open>Arc\<close>s are.
  \<^item> this theory: properties that span components.

  \<^bold>\<open>How code corresponds to definitions.\<close>  Structs are records, enums are datatypes, an operation is one
  function from the state to its result and the new state.  Fallible operations return a sum, \<open>Inl\<close> the
  error; a panic is \<open>None\<close> or a constructor of its own.  Integers keep their width where the code can reach
  the end of it.  A \<open>select!\<close> loop is a step function over a datatype of events.  What a channel, a socket or
  an upstream was sent is kept as a list in the state, so that theorems can speak of it.  Answers of
  upstreams, codecs, parsers, URL handling, the eviction policy of the hash cache and the sync service are
  fields of environment records, with the documented laws the proofs need as locales (\<open>hash_cache\<close>,
  \<open>scc_insert\<close>, \<open>module_merge\<close>).  The eviction of the delegations cache is free where a theorem holds for every
  policy; the one theorem that needs an eviction assumes a policy that evicts stored entries of a full
  cache only (\<open>evicts_when_full\<close>).  \<open>get_record_loop\<close> is the reading nobody interrupts: an awaited fill yields
  what the environment says and the fetch wins its race unless the entry is already filled; every
  interleaving is in \<open>task_step\<close>.

  \<^bold>\<open>What the lemmas show.\<close>  Routing decisions follow the cached delegations (\<open>Http_Routing\<close>); the cache
  gives every pending fill one owner, answers in agreement with its entries or with the fill that was
  awaited, never blocks a caller for good and never goes back to an older slot (\<open>Delegation_Tasks\<close>; two
  fills of one account can exist after the cache was cleared, and readers of an entry without an owner
  each fetch), and its updater implements a register per account (\<open>Delegations\<close>); the routing
  table stays well formed, cycles through its endpoints and finds the closest fresh node (\<open>Routes\<close>); the
  metric series count every call once (\<open>Metrics\<close>); connections deliver a notification to exactly the
  listeners of its subscription, keep their tables consistent and end their reconnection
  (\<open>Connection\<close>); requests are taken once, in order and only by connections to the upstream they name
  (\<open>Dispatch\<close>, \<open>Pubsub_System\<close>); the subscription gauge
  counts the handlers that run (\<open>Websocket\<close>); a started router is consistent, its two servers work on one
  state, and it starts (\<open>Startup\<close>); a notification of an upstream reaches the client that asked for it, and a client that leaves
  is signed off (this theory).  Some theorems state behaviour that looks unintended, such as a listener that
  outlives its client or an unsubscription that overtakes a new subscription; they say exactly when it
  happens.

  \<^bold>\<open>Bounds and termination.\<close>  Every function is total, and no fuel is used.  The retry loop of
  \<open>get_record\<close> ends by a measure on whether the entry still waits for a fill; a fetch is tried
  at most four times; a reconnection at most 17 times, as in the code.  Event loops are functions of the
  list of events they handle.

  \<^bold>\<open>Not modelled.\<close>  \<open>main.rs\<close> reads a file, installs a logger and waits for the end of the process.  The server library, the registry, the
  histogram buckets and the text format of the metrics crate, serde's field renaming and log output belong to
  other crates.  Queue bounds are left out, so a sender never waits for a full queue.  Clearing the cache on
  an interruption of the stream is one atomic step, although the code clears bucket by bucket.  The lookups
  of a request over several accounts are taken in order, although the code runs them concurrently.  An
  unsubscription of the cache is recorded even if the sync service has ended; the code drops it.  The counter
  of upstream requests is advanced by the sends of connections and by \<open>UpstreamSender::send\<close> (\<open>Metrics\<close>), but
  not by the handlers, the fetch and the identity probe: how many requests a method of the RPC client makes is
  the client library's.
\<close>

section \<open>Properties that span components\<close>

text \<open>C17: A signature subscription follows its transaction: after a successful send of an untracked
  transaction, subscribing to its signature sends exactly one subscription request.  Its destination is
  the websocket address of the very upstream to which the transaction was sent: the node that the
  accounts of the transaction agree on, or one and the same base chain endpoint.\<close>

theorem signature_subscription_follows_transaction:
  assumes "hash_cache (put_transaction E)" and "wf_base (table s)"
    and "decode_transaction E (unwrap_or Base58 (send_encoding (unwrap_or (default_send_config E) params)))
             txn_str = Inr bytes"
    and "deserialize_transaction E bytes = Inr txn"
    and "get_transaction (get_signature E txn) (transactions s) = None"
    and "send_transaction E txn_str params s = (Inr r, s')"
    and "wse_parse_signature W sig_str = Inr (get_signature E txn)"
    and "ws_transactions w = transactions s'"
  shows "\<exists>h sub. transaction_upstream E txn s h
     \<and> forwarded s' = forwarded s @ [(handle_rpc h, CallSend txn)]
     \<and> dispatcher_tx (ws_table (snd (signature_subscribe W (Inr ()) sig_str p confirmation sink_ok w)))
         = dispatcher_tx (ws_table w) @ [sub]
     \<and> sub_destination sub = handle_ws h"
proof -
  obtain h where route: "fst (route_transaction E txn s) = Inr h"
    and sent: "forwarded s' = forwarded s @ [(handle_rpc h, CallSend txn)]"
    and tracked: "get_transaction (get_signature E txn) (ws_transactions w) = Some h"
    using sent_and_tracked [OF assms(1,3-6)] assms(8) by auto
  let ?sub = "\<lparr>sub_request_id = RequestId (ws_ids w + 1), sub_subscriber_id = SubscriberId (ws_ids w),
      sub_payload = signature_subscription_json (show_signature (wse_display W)) (RequestId (ws_ids w + 1))
        (get_signature E txn) p,
      sub_tx = ws_channels w, sub_destination = handle_ws h, sub_upstream = Chain\<rparr>"
  have disp: "dispatcher_tx (ws_table (snd (signature_subscribe W (Inr ()) sig_str p confirmation sink_ok w)))
      = dispatcher_tx (ws_table w) @ [?sub]"
    using assms(7) tracked
    by (auto simp: signature_subscribe_def new_channel_def new_ids_def generate_def Let_def dispatch_def
        ws_table_def map_metrics_def sink_failure_def
        split: option.splits pubsub_message.splits sum.splits)
  show ?thesis
    by (rule exI [of _ h], rule exI [of _ ?sub])
       (simp add: sent disp route_transaction_upstream [OF assms(2) route])
qed

theorem signature_subscription_follows_transaction_witness:
  "\<exists>w sub. dispatcher_tx (ws_table (snd (signature_subscribe sample_ws_env (Inr ()) ''t'' None None (Inr ()) w)))
     = [sub] \<and> sub_destination sub = ''er1''"
proof -
  obtain r s' where sent: "send_transaction sample_http_env ''t'' None sample_server = (Inr r, s')"
    using sample_sent by blast
  let ?w = "sample_ws\<lparr>ws_transactions := transactions s'\<rparr>"
  have cache: "hash_cache (put_transaction sample_http_env)"
    by (simp add: sample_http_env_def policy_cache.hash_cache_axioms)
  have fresh: "get_transaction (get_signature sample_http_env (VersionedTransaction [11, 13]))
      (transactions sample_server) = None"
    by (simp add: sample_server_def forwarded_transactions_new_def get_transaction_def Let_def)
  have sig: "wse_parse_signature sample_ws_env ''t''
      = Inr (get_signature sample_http_env (VersionedTransaction [11, 13]))"
    by (simp add: sample_ws_env_def sample_http_env_def)
  have empty: "dispatcher_tx (ws_table ?w) = []"
    by (simp add: ws_table_def sample_ws_def sample_server_def delegations_new_def sample_er_table_def
        sample_table_def)
  have upstream: "transaction_upstream sample_http_env (VersionedTransaction [11, 13]) sample_server h
      \<longleftrightarrow> h = \<lparr>handle_rpc = metrics_client ''er1'' ''er'', handle_ws = ''er1''\<rparr>" for h
    by (auto simp: transaction_upstream_def sample_verdict sample_table_er1)
  show ?thesis
    using signature_subscription_follows_transaction [OF cache sample_table_er1(2) sample_decode fresh sent sig,
        of ?w None None "Inr ()"] empty upstream by auto
qed



lemma subscribed_listener:
  assumes "channel_open C (sub_tx s)" and "socket_ok C (sub_payload s)"
    and "map_of (conn_subscriptions (conn cw)) n = None"
  shows "let cw' = on_subscribed C \<lparr>sr_id = sub_request_id s, sr_result = n\<rparr> (snd (on_request C s cw))
         in map_of (conn_subscriptions (conn cw')) n =
              Some [(sub_subscriber_id s, \<lparr>shn_request_id = sub_request_id s, shn_upstream = sub_upstream s,
                                           shn_tx = sub_tx s\<rparr>)]
            \<and> conn_request_to_subs (conn cw') (sub_request_id s) = Some n"
  using assms
  by (simp add: on_subscribed_def on_request_def socket_send_def count_upstream_def deliver_def Let_def
      update_conv')

















section \<open>From the client to the upstream and back\<close>

text \<open>What the connection does with a request: it sends it, confirms it to the subscriber and then hands on
  the notifications of the subscription.\<close>

definition confirmed :: "conn_env \<Rightarrow> subscription_id \<Rightarrow> subscription \<Rightarrow> conn_world \<Rightarrow> conn_world" where
  "confirmed C n s cw = on_subscribed C \<lparr>sr_id = sub_request_id s, sr_result = n\<rparr> (snd (on_request C s cw))"

definition confirmation_of :: "conn_world \<Rightarrow> subscription \<Rightarrow> subscription_handle" where
  "confirmation_of cw s =
     \<lparr>sh_request_id = sub_request_id s, sh_unsub = conn_unsubscriptions_tx (conn cw), sh_upstream = sub_upstream s\<rparr>"

lemma confirmed_delivers:
  assumes "channel_open C (sub_tx s)" and "socket_ok C (sub_payload s)"
  shows "delivered (confirmed C n s cw) = delivered cw @ [(sub_tx s, Subscribed (confirmation_of cw s))]"
  using assms
  by (simp add: confirmed_def confirmation_of_def on_subscribed_def on_request_def socket_send_def
      deliver_def Let_def count_upstream_def)

lemma confirmed_notification:
  assumes "channel_open C (sub_tx s)" and "socket_ok C (sub_payload s)"
    and "map_of (conn_subscriptions (conn cw)) n = None"
  shows "delivered (on_notification C \<lparr>np_result = payload, np_subscription = n\<rparr> (confirmed C n s cw))
    = delivered cw @ [(sub_tx s, Subscribed (confirmation_of cw s)),
                      (sub_tx s, Notification (sub_request_id s) (sub_upstream s) payload)]"
  using subscribed_listener [OF assms] confirmed_delivers [OF assms(1,2), of n cw] assms(1)
  by (simp add: on_notification_def confirmed_def [symmetric] Let_def notify_listeners_eq listening_def)

text \<open>What the handler's client sees and what the dispatcher is asked.\<close>

lemma ws_base_chain_same:
  assumes "ws_base_chain w = (b, w')"
  shows "ws_ids w' = ws_ids w" "ws_channels w' = ws_channels w" "ws_unsubs w' = ws_unsubs w"
    "ws_sinks w' = ws_sinks w"
  using assms by (auto simp: ws_base_chain_def split: prod.splits)

lemma account_subscribe_undelegated:
  assumes "ws_authority E key w = (None, w0)"
  obtains w1 where
    "dispatcher_tx (ws_table w1) = dispatcher_tx (ws_table w0) @ [request_sub E key params w0]"
    and "ws_unsubs w1 = ws_unsubs w0" and "ws_sinks w1 = ws_sinks w0"
    and "\<And>hd. sh_request_id hd = RequestId (ws_ids w0 + 1) \<Longrightarrow>
       account_subscribe E (SerdePubkey key) params (Some (Some (Subscribed hd))) (Inr ()) w
         = (Inr \<lparr>ah_pubkey = key, ah_subscriber_id = SubscriberId (ws_ids w0), ah_tx = ws_channels w0,
                 ah_handles = [(RequestId (ws_ids w0 + 1), hd)], ah_params = params\<rparr>, w1)"
proof -
  obtain b w2 where b: "ws_base_chain w0 = (b, w2)" by fastforce
  note same = ws_base_chain_same [OF b]
  have tx: "dispatcher_tx (ws_table w2) = dispatcher_tx (ws_table w0)"
    using ws_base_chain_frame(1) [of w0] b by simp
  let ?w1 = "dispatch (request_sub E key params w0)
      (w2\<lparr>ws_channels := Suc (ws_channels w0), ws_ids := 2 + ws_ids w0\<rparr>)"
  have req: "account_subscribe_request E key params w = (Inr (SubscriberId (ws_ids w0), ws_channels w0), ?w1)"
    by (simp add: account_subscribe_request_def assms b new_channel_def new_ids_def generate_def Let_def
        request_sub_def same)
  show thesis
  proof (rule that [of ?w1])
    show "dispatcher_tx (ws_table ?w1) = dispatcher_tx (ws_table w0) @ [request_sub E key params w0]"
      by (simp add: tx [symmetric]) (simp add: ws_table_def)
    show "ws_unsubs ?w1 = ws_unsubs w0" "ws_sinks ?w1 = ws_sinks w0"
      by (simp_all add: dispatch_def same)
  qed (simp add: account_subscribe_def req)
qed

lemma sinks_status_change [simp]:
  "ws_sinks (snd (handle_delegation_status_change E n rid up (h, w))) = ws_sinks w"
  by (auto simp: handle_delegation_status_change_def Let_def ws_authority_def dispatch_def send_unsub_def
      new_ids_def split: option.splits upstream_kind.splits prod.splits)

lemma notification_reaches_sink:
  assumes "wse_serializable E payload"
  shows "ws_sinks (snd (account_step E g (Incoming (Notification rid up payload) True) (h, w)))
    = ws_sinks w @ [Data ''accountNotification'' payload]"
  using assms sinks_status_change [of E payload rid up h w]
  by (simp add: split_beta map_metrics_def)

text \<open>C3: A notification reaches the client.  A client subscribes to an account that is not delegated; the
  dispatcher is asked for one subscription and puts it into the queue of the base chain endpoint it
  names; the connection that takes it from there confirms it to the handler, and when the upstream sends a
  notification for it, the handler receives it and writes exactly that payload to the client.\<close>

theorem account_notification_reaches_client:
  assumes "ws_authority E key w = (None, w0)"
    and "upstream_queues d (ws_url (fst (ws_base_chain w0))) = Some q" and "has_receiver D q"
    and "channel_open C (ws_channels w0)" and "\<And>t. socket_ok C t"
    and "map_of (conn_subscriptions (conn cw)) n = None"
    and "websocket_message_deserialize note = Some (WsNotification \<lparr>np_result = payload, np_subscription = n\<rparr>)"
    and "wse_serializable E payload"
  shows "\<exists>s h w1 confirmation note'.
       dispatcher_tx (ws_table w1) = dispatcher_tx (ws_table w0) @ [s]
     \<and> queued (dispatch_step D (SubRequest s) d) = queued d @ [(q, s)]
     \<and> wire (snd (conn_step C (Request s) cw)) = wire cw @ [sub_payload s]
     \<and> delivered (snd (conn_step C (Received (Some note))
           (on_subscribed C \<lparr>sr_id = sub_request_id s, sr_result = n\<rparr> (snd (conn_step C (Request s) cw)))))
         = delivered cw @ [(ah_tx h, confirmation), (ah_tx h, note')]
     \<and> account_subscribe E (SerdePubkey key) params (Some (Some confirmation)) (Inr ()) w = (Inr h, w1)
     \<and> ws_sinks (snd (account_step E g (Incoming note' True) (h, w1)))
         = ws_sinks w0 @ [Data ''accountNotification'' payload]"
proof -
  let ?s = "request_sub E key params w0"
  have s: "sub_tx ?s = ws_channels w0" "sub_request_id ?s = RequestId (ws_ids w0 + 1)" "sub_upstream ?s = Chain"
    "sub_destination ?s = ws_url (fst (ws_base_chain w0))"
    by (simp_all add: request_sub_def account_subscription_def)
  let ?c = "confirmation_of cw ?s"
  have c: "sh_request_id ?c = RequestId (ws_ids w0 + 1)" by (simp add: confirmation_of_def s)
  obtain w1 where w1: "dispatcher_tx (ws_table w1) = dispatcher_tx (ws_table w0) @ [?s]"
      "ws_sinks w1 = ws_sinks w0"
    and sub: "account_subscribe E (SerdePubkey key) params (Some (Some (Subscribed ?c))) (Inr ()) w
         = (Inr \<lparr>ah_pubkey = key, ah_subscriber_id = SubscriberId (ws_ids w0), ah_tx = ws_channels w0,
                 ah_handles = [(RequestId (ws_ids w0 + 1), ?c)], ah_params = params\<rparr>, w1)"
    using account_subscribe_undelegated [OF assms(1), of params] c by metis
  have "channel_open C (sub_tx ?s)" using assms(4) s by simp
  note notified = confirmed_notification [OF this assms(5,6), of payload]
  have wire: "wire (snd (conn_step C (Request ?s) cw)) = wire cw @ [sub_payload ?s]"
    using assms(5) by (simp add: on_request_def socket_send_def Let_def count_upstream_def)
  have queued: "queued (dispatch_step D (SubRequest ?s) d) = queued d @ [(q, ?s)]"
    using assms(2,3) by (simp add: on_sub_request_def s)
  let ?h = "\<lparr>ah_pubkey = key, ah_subscriber_id = SubscriberId (ws_ids w0), ah_tx = ws_channels w0,
      ah_handles = [(RequestId (ws_ids w0 + 1), ?c)], ah_params = params\<rparr>"
  have delivered: "delivered (snd (conn_step C (Received (Some note))
      (on_subscribed C \<lparr>sr_id = sub_request_id ?s, sr_result = n\<rparr> (snd (conn_step C (Request ?s) cw)))))
        = delivered cw @ [(ah_tx ?h, Subscribed ?c), (ah_tx ?h, Notification (sub_request_id ?s) Chain payload)]"
    using notified by (simp add: assms(7) confirmed_def s)
  have sink: "ws_sinks (snd (account_step E g (Incoming (Notification (sub_request_id ?s) Chain payload) True)
      (?h, w1))) = ws_sinks w0 @ [Data ''accountNotification'' payload]"
    by (simp only: notification_reaches_sink [OF assms(8)] w1(2))
  show ?thesis
    by (intro exI conjI) (rule w1(1), rule queued, rule wire, rule delivered, rule sub, rule sink)
qed

lemma sample_ws_undelegated: "ws_authority sample_ws_env (Pubkey [13]) sample_ws = (None, sample_ws)"
proof -
  have "db (delegations sample_server) (Pubkey [13]) = Some (fetched_entry 50 None)"
    "slot (fetched_entry 50 None) \<noteq> 0"
    by (simp_all add: sample_server_def fetched_entry_def)
  then show ?thesis
    by (simp add: ws_authority_def sample_ws_env_def sample_ws_def get_delegation_authority_def get_record_def
        sample_pda get_record_loop_hit)
       (simp add: fetched_entry_def record_authority_def)
qed

lemma sample_channel: "channel_open sample_conn_env (ws_channels sample_ws)" "socket_ok sample_conn_env t"
  by (simp_all add: sample_conn_env_def sample_ws_def)

definition other_note :: json where
  "other_note =
     JObject [(''method'', JString ''accountNotification''),
              (''params'', JObject [(''result'', JString ''x''), (''subscription'', JU64 8)])]"

lemma other_note_parsed:
  "websocket_message_deserialize other_note
     = Some (WsNotification \<lparr>np_result = JString ''x'', np_subscription = 8\<rparr>)"
  by (simp add: other_note_def websocket_message_deserialize_def json_notification_def)

lemma sample_world_new: "map_of (conn_subscriptions (conn sample_world)) 8 = None"
  by (simp add: sample_world_def)

theorem account_notification_reaches_client_witness:
  "\<exists>h w1 note'. ws_sinks (snd (account_step sample_ws_env \<lparr>guard_kind = ''account''\<rparr>
       (Incoming note' True) (h, w1))) = [Data ''accountNotification'' (JString ''x'')]"
proof -
  let ?d = "(dispatcher_new 1 True metrics_new)
    \<lparr>upstream_queues := [ws_url (fst (ws_base_chain sample_ws)) \<mapsto> 0]\<rparr>"
  have "upstream_queues ?d (ws_url (fst (ws_base_chain sample_ws))) = Some 0"
    "has_receiver sample_dispatch_env 0" "wse_serializable sample_ws_env (JString ''x'')"
    "ws_sinks sample_ws = []"
    by (simp_all add: sample_dispatch_env_def sample_ws_env_def sample_ws_def)
  with account_notification_reaches_client [OF sample_ws_undelegated this(1,2) sample_channel
      sample_world_new other_note_parsed this(3), of None "\<lparr>guard_kind = ''account''\<rparr>"]
  show ?thesis by (metis append_Nil)
qed

lemma confirmed_then_released:
  assumes "channel_open C (sub_tx s)" and "\<And>t. socket_ok C t"
    and "map_of (conn_subscriptions (conn cw)) n = None"
  shows "map_of (conn_subscriptions (conn (snd (on_unsubscription C
             (account_unsub (sub_request_id s) (sub_subscriber_id s)) (confirmed C n s cw)))))
           = map_of (conn_subscriptions (conn cw))"
    and "wire (snd (on_unsubscription C
             (account_unsub (sub_request_id s) (sub_subscriber_id s)) (confirmed C n s cw)))
           = wire cw @ [sub_payload s, unsubscription_json (RequestId (id_counter cw)) ''accountUnsubscribe'' n]"
  using assms
  by (simp_all add: confirmed_def on_unsubscription_def account_unsub_def on_subscribed_def on_request_def
      socket_send_def count_upstream_def deliver_def Let_def update_conv' generate_def map_of_set_listeners
      fun_eq_iff)

text \<open>C16: A client that leaves is signed off.  When the client of a subscription to an account that is not
  delegated goes away, its handler sends one unsubscription, to the connection that confirmed the
  subscription; the connection cancels it upstream under the id the upstream gave it, and its table of
  subscriptions is again what it was before.\<close>

theorem client_leaving_releases_subscription:
  assumes "ws_authority E key w = (None, w0)"
    and "channel_open C (ws_channels w0)" and "\<And>t. socket_ok C t"
    and "map_of (conn_subscriptions (conn cw)) n = None"
  shows "\<exists>s h w1 u hd.
       dispatcher_tx (ws_table w1) = dispatcher_tx (ws_table w0) @ [s]
     \<and> delivered (confirmed C n s cw) = delivered cw @ [(ah_tx h, Subscribed hd)]
     \<and> account_subscribe E (SerdePubkey key) params (Some (Some (Subscribed hd))) (Inr ()) w = (Inr h, w1)
     \<and> ws_unsubs (account_loop g [(E, SinkClosed)] (h, w1))
         = ws_unsubs w0 @ [(conn_unsubscriptions_tx (conn cw), u)]
     \<and> wire (snd (conn_step C (Unsubscribe u) (confirmed C n s cw)))
         = wire cw @ [sub_payload s, unsubscription_json (RequestId (id_counter cw)) ''accountUnsubscribe'' n]
     \<and> map_of (conn_subscriptions (conn (snd (conn_step C (Unsubscribe u) (confirmed C n s cw)))))
         = map_of (conn_subscriptions (conn cw))"
proof -
  let ?s = "request_sub E key params w0"
  have s: "sub_tx ?s = ws_channels w0" "sub_request_id ?s = RequestId (ws_ids w0 + 1)"
    "sub_subscriber_id ?s = SubscriberId (ws_ids w0)"
    by (simp_all add: request_sub_def account_subscription_def)
  let ?c = "confirmation_of cw ?s"
  let ?h = "\<lparr>ah_pubkey = key, ah_subscriber_id = SubscriberId (ws_ids w0), ah_tx = ws_channels w0,
      ah_handles = [(RequestId (ws_ids w0 + 1), ?c)], ah_params = params\<rparr>"
  let ?u = "account_unsub (sub_request_id ?s) (sub_subscriber_id ?s)"
  have c: "sh_request_id ?c = RequestId (ws_ids w0 + 1)" "sh_unsub ?c = conn_unsubscriptions_tx (conn cw)"
    by (simp_all add: confirmation_of_def s)
  obtain w1 where w1: "dispatcher_tx (ws_table w1) = dispatcher_tx (ws_table w0) @ [?s]"
      "ws_unsubs w1 = ws_unsubs w0"
    and sub: "account_subscribe E (SerdePubkey key) params (Some (Some (Subscribed ?c))) (Inr ()) w = (Inr ?h, w1)"
    using account_subscribe_undelegated [OF assms(1), of params] c(1) by metis
  have "open": "channel_open C (sub_tx ?s)" using assms(2) s by simp
  have delivered: "delivered (confirmed C n ?s cw) = delivered cw @ [(ah_tx ?h, Subscribed ?c)]"
    using confirmed_delivers [OF "open" assms(3)] by (simp add: s)
  have unsubs: "ws_unsubs (account_loop g [(E, SinkClosed)] (?h, w1))
      = ws_unsubs w0 @ [(conn_unsubscriptions_tx (conn cw), ?u)]"
    by (simp add: send_unsub_def c w1 s)
  note released = confirmed_then_released [OF "open" assms(3,4)]
  show ?thesis
    by (intro exI conjI) (rule w1(1), rule delivered, rule sub, rule unsubs, simp only: conn_step.simps released,
      simp only: conn_step.simps released)
qed

theorem client_leaving_releases_subscription_witness:
  "\<exists>s u. wire (snd (conn_step sample_conn_env (Unsubscribe u) (confirmed sample_conn_env 8 s sample_world)))
     = [sub_payload s, unsubscription_json (RequestId 20) ''accountUnsubscribe'' 8]"
proof -
  have "wire sample_world = []" "id_counter sample_world = 20" by (simp_all add: sample_world_def)
  with client_leaving_releases_subscription [OF sample_ws_undelegated sample_channel sample_world_new,
      of None "\<lparr>guard_kind = ''account''\<rparr>"]
  show ?thesis by (metis append_Nil)
qed

end
